theory Spec2Isabelle
  imports Main "HOL-Library.Word"
begin

unbundle bit_operations_syntax

section \<open>Data model of pa3.c\<close>

text \<open>
  The C file works on \<^verbatim>\<open>unsigned int\<close> values (virtual page numbers, frame numbers, access
  flags, process ids, mapping counts): they are 32-bit words here, and an array index is
  the \<open>unat\<close> of such a word.  The loop counters of the source are \<^verbatim>\<open>int\<close>s that only count
  upwards from 0 to a configuration constant; they are natural numbers.
\<close>

type_synonym u32 = "32 word"

text \<open>
  \<^verbatim>\<open>struct pte\<close> of vm.h, with the four fields the source reads and writes:
  \<^verbatim>\<open>valid\<close>, \<^verbatim>\<open>writable\<close>, \<^verbatim>\<open>pfn\<close> and \<^verbatim>\<open>private\<close> (the original-permission tag).
\<close>

record pte =
  valid :: bool
  writable :: bool
  pfn :: u32
  pte_private :: u32

text \<open>\<^verbatim>\<open>struct tlb_entry\<close>: the fields \<^verbatim>\<open>valid\<close>, \<^verbatim>\<open>vpn\<close>, \<^verbatim>\<open>pfn\<close> used by the source.\<close>

record tlb_entry =
  tlb_valid :: bool
  tlb_vpn :: u32
  tlb_pfn :: u32

text \<open>
  \<^verbatim>\<open>struct pte_directory\<close> is an array of ptes, and \<^verbatim>\<open>struct pagetable\<close> an array
  \<^verbatim>\<open>outer_ptes\<close> of pointers to directories.  A pointer is \<open>Null\<close>, or \<open>Ptr d\<close> when it
  points to the directory \<open>d\<close>, or \<open>Wild\<close> when it is neither: the content of a slot that
  was never assigned and does not happen to be NULL.  Every directory is malloc'ed for
  exactly one page table (lines 139 and 320), so no directory is shared and a pointer to
  a directory can be replaced by the directory it points to.  Testing a wild pointer
  against NULL says that it is not NULL; dereferencing it is undefined.
\<close>

datatype 'a ptr = Null | Ptr 'a | Wild

type_synonym pte_directory = "pte list"
type_synonym pagetable = "pte_directory ptr list"

record process =
  pid :: u32
  pagetable :: pagetable

text \<open>
  The constants of the headers that are not part of the source file are parameters of
  the model, and so is what \<^verbatim>\<open>malloc\<close> returns, since the source never initialises a block:
  \<open>malloc_pte\<close> is the content of the slots of a block handed out for a directory (lines
  139 and 320), and \<open>malloc_null i\<close> tells whether slot \<open>i\<close> of \<^verbatim>\<open>outer_ptes\<close> in a block handed
  out for a \<^verbatim>\<open>struct process\<close> (line 314) holds NULL.
\<close>

record config =
  NR_PAGEFRAMES :: nat
  NR_PTES_PER_PAGE :: nat
  PTES_PER_PAGE_SHIFT :: nat
  RW_READ :: u32
  RW_WRITE :: u32
  malloc_pte :: "nat \<Rightarrow> pte"
  malloc_null :: "nat \<Rightarrow> bool"

text \<open>
  The global variables: the TLB array with the counter \<^verbatim>\<open>tlbSize\<close>, the array
  \<^verbatim>\<open>mapcounts\<close>, the running process \<^verbatim>\<open>current\<close> and the ready list \<^verbatim>\<open>processes\<close>.
  The pointer \<^verbatim>\<open>ptbr\<close> always points to the page table of \<^verbatim>\<open>current\<close>: \<^verbatim>\<open>switch_process\<close>
  assigns the two together (lines 306-307 and 343-344).
\<close>

record state =
  tlb :: "tlb_entry list"
  tlbSize :: nat
  mapcounts :: "u32 list"
  current :: process
  processes :: "process list"

text \<open>
  What C leaves undefined is an error value of the model: dereferencing a NULL or a wild
  directory pointer, and indexing an array outside its extent.
\<close>

datatype error = NullPointer | WildPointer | OutOfBounds

definition ptbr :: "state \<Rightarrow> pagetable" where
  "ptbr s = pagetable (current s)"

definition set_ptbr :: "pagetable \<Rightarrow> state \<Rightarrow> state" where
  "set_ptbr pt s = s\<lparr>current := (current s)\<lparr>pagetable := pt\<rparr>\<rparr>"

definition set_pte :: "nat \<Rightarrow> nat \<Rightarrow> pte_directory \<Rightarrow> pte \<Rightarrow> state \<Rightarrow> state" where
  "set_pte outer inner dir e s = set_ptbr ((ptbr s)[outer := Ptr (dir[inner := e])]) s"

definition malloc_directory :: "config \<Rightarrow> pte_directory" where
  "malloc_directory cfg = map (malloc_pte cfg) [0..<NR_PTES_PER_PAGE cfg]"

definition malloc_outer_ptes :: "config \<Rightarrow> pagetable" where
  "malloc_outer_ptes cfg =
     map (\<lambda>i. if malloc_null cfg i then Null else Wild) [0..<NR_PTES_PER_PAGE cfg]"

definition tlb_capacity :: "config \<Rightarrow> nat" where
  "tlb_capacity cfg = 2 ^ (PTES_PER_PAGE_SHIFT cfg * 2)"

section \<open>The operations\<close>

subsection \<open>lookup_tlb (lines 69-78)\<close>

function lookup_tlb_loop :: "tlb_entry list \<Rightarrow> nat \<Rightarrow> u32 \<Rightarrow> nat \<Rightarrow> error + u32 option" where
  "lookup_tlb_loop t n vpn i =
     (if i < n then
        (if length t \<le> i then Inl OutOfBounds
         else if tlb_vpn (t ! i) = vpn then Inr (Some (tlb_pfn (t ! i)))
         else lookup_tlb_loop t n vpn (i + 1))
      else Inr None)"
  by pat_completeness auto
termination
  by (relation "measure (\<lambda>(t, n, vpn, i). n - i)") auto

declare lookup_tlb_loop.simps [simp del]

text \<open>\<open>Some pfn\<close> is the result \<^verbatim>\<open>true\<close> with \<^verbatim>\<open>*pfn\<close> set, \<open>None\<close> the result \<^verbatim>\<open>false\<close>.\<close>

definition lookup_tlb :: "u32 \<Rightarrow> state \<Rightarrow> error + u32 option" where
  "lookup_tlb vpn s = lookup_tlb_loop (tlb s) (tlbSize s) vpn 0"

subsection \<open>find_smallest_pfn (lines 80-94)\<close>

function find_smallest_loop :: "config \<Rightarrow> u32 list \<Rightarrow> nat \<Rightarrow> error + nat" where
  "find_smallest_loop cfg mc i =
     (if i < NR_PAGEFRAMES cfg then
        (if length mc \<le> i then Inl OutOfBounds
         else if mc ! i = 0 then Inr i
         else find_smallest_loop cfg mc (i + 1))
      else Inr (NR_PAGEFRAMES cfg))"
  by pat_completeness auto
termination
  by (relation "measure (\<lambda>(cfg, mc, i). NR_PAGEFRAMES cfg - i)") auto

declare find_smallest_loop.simps [simp del]

definition find_smallest_pfn :: "config \<Rightarrow> u32 list \<Rightarrow> error + nat" where
  "find_smallest_pfn cfg mc = find_smallest_loop cfg mc 0"

subsection \<open>insert_tlb (lines 104-111)\<close>

definition insert_tlb :: "u32 \<Rightarrow> u32 \<Rightarrow> state \<Rightarrow> error + state" where
  "insert_tlb vpn pfn' s =
     (let new_entry = \<lparr>tlb_valid = True, tlb_vpn = vpn, tlb_pfn = pfn'\<rparr> in
      if length (tlb s) \<le> tlbSize s then Inl OutOfBounds
      else Inr (s\<lparr>tlb := (tlb s)[tlbSize s := new_entry], tlbSize := tlbSize s + 1\<rparr>))"

subsection \<open>alloc_page (lines 130-163)\<close>

text \<open>
  \<open>alloc_perm\<close> is the assignment of the permission bits (lines 144-149): for an \<open>rw\<close> that
  is neither \<open>RW_READ\<close> nor \<open>RW_WRITE | RW_READ\<close> nothing is assigned, and the tag
  \<^verbatim>\<open>private\<close> is assigned for \<open>RW_READ\<close> only.  The entry is written before the search for a
  frame.  The result \<open>- 1\<close> is the \<^verbatim>\<open>unsigned int\<close> that \<^verbatim>\<open>return -1\<close> produces.
\<close>

definition alloc_perm :: "config \<Rightarrow> u32 \<Rightarrow> pte \<Rightarrow> pte" where
  "alloc_perm cfg rw e =
     (if rw = RW_READ cfg then e\<lparr>writable := False, pte_private := RW_READ cfg\<rparr>
      else if rw = (RW_WRITE cfg OR RW_READ cfg) then e\<lparr>writable := True\<rparr>
      else e)"

definition alloc_page :: "config \<Rightarrow> u32 \<Rightarrow> u32 \<Rightarrow> state \<Rightarrow> error + (u32 \<times> state)" where
  "alloc_page cfg vpn rw s =
     (let outer = unat vpn div NR_PTES_PER_PAGE cfg;
          inner = unat vpn mod NR_PTES_PER_PAGE cfg
      in if length (ptbr s) \<le> outer then Inl OutOfBounds
      else if ptbr s ! outer = Wild then Inl WildPointer
      else
        let dir = (case ptbr s ! outer of Ptr d \<Rightarrow> d | _ \<Rightarrow> malloc_directory cfg)
        in if length dir \<le> inner then Inl OutOfBounds
        else
          let e = alloc_perm cfg rw ((dir ! inner)\<lparr>valid := True\<rparr>)
          in (case find_smallest_pfn cfg (mapcounts s) of
                Inl err \<Rightarrow> Inl err
              | Inr smallest_pfn \<Rightarrow>
                  if smallest_pfn = NR_PAGEFRAMES cfg
                  then Inr (- 1, set_pte outer inner dir e s)
                  else if length (mapcounts s) \<le> smallest_pfn then Inl OutOfBounds
                  else Inr (of_nat smallest_pfn,
                         (set_pte outer inner dir (e\<lparr>pfn := of_nat smallest_pfn\<rparr>) s)
                           \<lparr>mapcounts := (mapcounts s)
                              [smallest_pfn := mapcounts s ! smallest_pfn + 1]\<rparr>)))"

subsection \<open>free_page (lines 175-197)\<close>

text \<open>
  The loop over the TLB (lines 190-196) clears the valid bit of the first slot that holds
  \<open>vpn\<close> and decrements \<^verbatim>\<open>tlbSize\<close>; the slots themselves stay where they are.
\<close>

function free_tlb_loop :: "tlb_entry list \<Rightarrow> nat \<Rightarrow> u32 \<Rightarrow> nat \<Rightarrow> error + (tlb_entry list \<times> nat)" where
  "free_tlb_loop t n vpn i =
     (if i < n then
        (if length t \<le> i then Inl OutOfBounds
         else if tlb_vpn (t ! i) = vpn
           then Inr (t[i := (t ! i)\<lparr>tlb_valid := False\<rparr>], n - 1)
         else free_tlb_loop t n vpn (i + 1))
      else Inr (t, n))"
  by pat_completeness auto
termination
  by (relation "measure (\<lambda>(t, n, vpn, i). n - i)") auto

declare free_tlb_loop.simps [simp del]

definition free_page :: "config \<Rightarrow> u32 \<Rightarrow> state \<Rightarrow> error + state" where
  "free_page cfg vpn s =
     (let outer = unat vpn div NR_PTES_PER_PAGE cfg;
          inner = unat vpn mod NR_PTES_PER_PAGE cfg
      in if length (ptbr s) \<le> outer then Inl OutOfBounds
      else case ptbr s ! outer of
        Null \<Rightarrow> Inl NullPointer
      | Wild \<Rightarrow> Inl WildPointer
      | Ptr dir \<Rightarrow>
          if length dir \<le> inner then Inl OutOfBounds
          else
            let e = (dir ! inner)\<lparr>valid := False, writable := False\<rparr>
            in if length (mapcounts s) \<le> unat (pfn e) then Inl OutOfBounds
            else
              let mc = (mapcounts s)[unat (pfn e) := mapcounts s ! unat (pfn e) - 1];
                  s1 = (set_pte outer inner dir (e\<lparr>pfn := 0\<rparr>) s)\<lparr>mapcounts := mc\<rparr>
              in (case free_tlb_loop (tlb s1) (tlbSize s1) vpn 0 of
                    Inl err \<Rightarrow> Inl err
                  | Inr (t, n) \<Rightarrow> Inr (s1\<lparr>tlb := t, tlbSize := n\<rparr>)))"

subsection \<open>handle_page_fault (lines 216-268)\<close>

text \<open>
  The branch for a frame with count at least 2 (lines 255-261) calls \<^verbatim>\<open>find_smallest_pfn\<close>
  and uses its result as pfn and as index into \<^verbatim>\<open>mapcounts\<close> without comparing it with
  \<open>NR_PAGEFRAMES\<close>.  Every path that reaches line 266 returns false.  A wild directory
  pointer passes the test of line 227 and is dereferenced at line 229.
\<close>

definition handle_page_fault :: "config \<Rightarrow> u32 \<Rightarrow> u32 \<Rightarrow> state \<Rightarrow> error + (bool \<times> state)" where
  "handle_page_fault cfg vpn rw s =
     (let outer = unat vpn div NR_PTES_PER_PAGE cfg;
          inner = unat vpn mod NR_PTES_PER_PAGE cfg
      in if length (ptbr s) \<le> outer then Inl OutOfBounds
      else case ptbr s ! outer of
        Null \<Rightarrow> Inr (False, s)
      | Wild \<Rightarrow> Inl WildPointer
      | Ptr dir \<Rightarrow>
          if length dir \<le> inner then Inl OutOfBounds
          else
            let e = dir ! inner
            in if \<not> valid e then Inr (False, s)
            else if \<not> writable e \<and> rw AND RW_WRITE cfg = RW_WRITE cfg then
              (if pte_private e = RW_READ cfg then Inr (False, s)
               else if length (mapcounts s) \<le> unat (pfn e) then Inl OutOfBounds
               else if mapcounts s ! unat (pfn e) = 1
                 then Inr (True, set_pte outer inner dir (e\<lparr>writable := True\<rparr>) s)
               else if 2 \<le> mapcounts s ! unat (pfn e) then
                 (let mc = (mapcounts s)[unat (pfn e) := mapcounts s ! unat (pfn e) - 1]
                  in case find_smallest_pfn cfg mc of
                       Inl err \<Rightarrow> Inl err
                     | Inr k \<Rightarrow>
                         let e' = e\<lparr>pfn := of_nat k, writable := True\<rparr>
                         in if length mc \<le> unat (pfn e') then Inl OutOfBounds
                         else Inr (True,
                                (set_pte outer inner dir e' s)
                                  \<lparr>mapcounts := mc[unat (pfn e') := mc ! unat (pfn e') + 1]\<rparr>))
               else Inr (False, s))
            else Inr (False, s))"

subsection \<open>switch_process (lines 297-348)\<close>

text \<open>\<^verbatim>\<open>memset(tlb, 0, sizeof(tlb))\<close> zeroes every slot of the array; \<^verbatim>\<open>tlbSize\<close> is not assigned.\<close>

definition zero_tlb_entry :: tlb_entry where
  "zero_tlb_entry = \<lparr>tlb_valid = False, tlb_vpn = 0, tlb_pfn = 0\<rparr>"

definition memset_tlb :: "state \<Rightarrow> state" where
  "memset_tlb s = s\<lparr>tlb := replicate (length (tlb s)) zero_tlb_entry\<rparr>"

text \<open>The position of the first process of the ready list with the requested pid.\<close>

fun find_pid :: "process list \<Rightarrow> u32 \<Rightarrow> nat option" where
  "find_pid [] p = None"
| "find_pid (q # qs) p = (if pid q = p then Some 0 else map_option Suc (find_pid qs p))"

text \<open>
  The inner loop of the fork (lines 323-338), over the index \<open>j\<close>.  \<open>forked_pte\<close> is the
  entry of the child (lines 325-335): a copy of the entry of the parent, tag included,
  with \<open>valid\<close> set and \<open>writable\<close> cleared.
\<close>

definition forked_pte :: "pte \<Rightarrow> pte" where
  "forked_pte e =
     (let forkedPte = e;
          forkedPte = (if \<not> writable e then forkedPte\<lparr>pte_private := pte_private e\<rparr>
                       else forkedPte)
      in forkedPte\<lparr>valid := True, writable := False, pfn := pfn e\<rparr>)"

function fork_ptes ::
  "config \<Rightarrow> nat \<Rightarrow> pte_directory \<Rightarrow> pte_directory \<Rightarrow> u32 list
    \<Rightarrow> error + (pte_directory \<times> pte_directory \<times> u32 list)" where
  "fork_ptes cfg j pd cd mc =
     (if j < NR_PTES_PER_PAGE cfg then
        (if length pd \<le> j \<or> length cd \<le> j then Inl OutOfBounds
         else if valid (pd ! j) then
           (if length mc \<le> unat (pfn (pd ! j)) then Inl OutOfBounds
            else fork_ptes cfg (j + 1)
                   (pd[j := (pd ! j)\<lparr>writable := False\<rparr>])
                   (cd[j := forked_pte (pd ! j)])
                   (mc[unat (pfn (pd ! j)) := mc ! unat (pfn (pd ! j)) + 1]))
         else fork_ptes cfg (j + 1) pd cd mc)
      else Inr (pd, cd, mc))"
  by pat_completeness auto
termination
  by (relation "measure (\<lambda>(cfg, j, pd, cd, mc). NR_PTES_PER_PAGE cfg - j)") auto

declare fork_ptes.simps [simp del]

text \<open>
  The outer loop (lines 316-339), over the index \<open>i\<close>: \<open>ppt\<close> is the page table of the
  parent, \<open>cpt\<close> the one of the child.
\<close>

function fork_dirs ::
  "config \<Rightarrow> nat \<Rightarrow> pagetable \<Rightarrow> pagetable \<Rightarrow> u32 list
    \<Rightarrow> error + (pagetable \<times> pagetable \<times> u32 list)" where
  "fork_dirs cfg i ppt cpt mc =
     (if i < NR_PTES_PER_PAGE cfg then
        (if length ppt \<le> i \<or> length cpt \<le> i then Inl OutOfBounds
         else case ppt ! i of
           Null \<Rightarrow> fork_dirs cfg (i + 1) ppt cpt mc
         | Wild \<Rightarrow> Inl WildPointer
         | Ptr pd \<Rightarrow>
             (case fork_ptes cfg 0 pd (malloc_directory cfg) mc of
                Inl err \<Rightarrow> Inl err
              | Inr (pd', cd', mc') \<Rightarrow>
                  fork_dirs cfg (i + 1) (ppt[i := Ptr pd']) (cpt[i := Ptr cd']) mc'))
      else Inr (ppt, cpt, mc))"
  by pat_completeness auto
termination
  by (relation "measure (\<lambda>(cfg, i, ppt, cpt, mc). NR_PTES_PER_PAGE cfg - i)") auto

declare fork_dirs.simps [simp del]

text \<open>
  The page table of the child lies in the block that \<^verbatim>\<open>malloc\<close> returns for its
  \<^verbatim>\<open>struct process\<close> (line 314).  The loop assigns the slots of the directories the parent
  has (line 320) and leaves the others as \<^verbatim>\<open>malloc\<close> returned them (line 318): NULL or wild.
\<close>

definition switch_process :: "config \<Rightarrow> u32 \<Rightarrow> state \<Rightarrow> error + state" where
  "switch_process cfg pid' s0 =
     (let s = memset_tlb s0
      in case find_pid (processes s) pid' of
        Some k \<Rightarrow>
          Inr (s\<lparr>current := processes s ! k,
                 processes := take k (processes s) @ drop (Suc k) (processes s) @ [current s]\<rparr>)
      | None \<Rightarrow>
          (case fork_dirs cfg 0 (ptbr s) (malloc_outer_ptes cfg) (mapcounts s) of
             Inl err \<Rightarrow> Inl err
           | Inr (ppt, cpt, mc) \<Rightarrow>
               Inr (s\<lparr>mapcounts := mc,
                      current := \<lparr>pid = pid', pagetable = cpt\<rparr>,
                      processes := processes s @ [(current s)\<lparr>pagetable := ppt\<rparr>]\<rparr>)))"

section \<open>The operations as steps of a run\<close>

text \<open>
  The driving framework calls the six entry points one after the other.  A run stops at
  the first step that C leaves undefined.
\<close>

datatype op =
    Alloc_page u32 u32
  | Free_page u32
  | Handle_page_fault u32 u32
  | Switch_process u32
  | Insert_tlb u32 u32
  | Lookup_tlb u32

definition step :: "config \<Rightarrow> op \<Rightarrow> state \<Rightarrow> error + state" where
  "step cfg x s =
     (case x of
        Alloc_page vpn rw \<Rightarrow> map_sum id snd (alloc_page cfg vpn rw s)
      | Free_page vpn \<Rightarrow> free_page cfg vpn s
      | Handle_page_fault vpn rw \<Rightarrow> map_sum id snd (handle_page_fault cfg vpn rw s)
      | Switch_process p \<Rightarrow> switch_process cfg p s
      | Insert_tlb vpn f \<Rightarrow> insert_tlb vpn f s
      | Lookup_tlb vpn \<Rightarrow> map_sum id (\<lambda>_. s) (lookup_tlb vpn s))"

fun run_ops :: "config \<Rightarrow> op list \<Rightarrow> state \<Rightarrow> error + state" where
  "run_ops cfg [] s = Inr s"
| "run_ops cfg (x # xs) s =
     (case step cfg x s of Inl err \<Rightarrow> Inl err | Inr s' \<Rightarrow> run_ops cfg xs s')"

section \<open>Notions used to state the properties\<close>

text \<open>
  The extents of the arrays, as the declarations of the headers fix them.  A well-formed
  page table has no wild pointer; \<open>pagetable_extents\<close> asks for the extents only.
\<close>

definition wf_config :: "config \<Rightarrow> bool" where
  "wf_config cfg \<longleftrightarrow> 0 < NR_PTES_PER_PAGE cfg \<and> NR_PAGEFRAMES cfg < 2 ^ 31"

definition wf_pagetable :: "config \<Rightarrow> pagetable \<Rightarrow> bool" where
  "wf_pagetable cfg pt \<longleftrightarrow>
     length pt = NR_PTES_PER_PAGE cfg \<and>
     list_all (\<lambda>d. case d of Null \<Rightarrow> True | Ptr ptes \<Rightarrow> length ptes = NR_PTES_PER_PAGE cfg
                         | Wild \<Rightarrow> False) pt"

definition pagetable_extents :: "config \<Rightarrow> pagetable \<Rightarrow> bool" where
  "pagetable_extents cfg pt \<longleftrightarrow>
     length pt = NR_PTES_PER_PAGE cfg \<and>
     list_all (\<lambda>d. case d of Ptr ptes \<Rightarrow> length ptes = NR_PTES_PER_PAGE cfg | _ \<Rightarrow> True) pt"

definition wf_state :: "config \<Rightarrow> state \<Rightarrow> bool" where
  "wf_state cfg s \<longleftrightarrow>
     wf_pagetable cfg (ptbr s) \<and>
     list_all (\<lambda>p. wf_pagetable cfg (pagetable p)) (processes s) \<and>
     length (mapcounts s) = NR_PAGEFRAMES cfg \<and>
     length (tlb s) = tlb_capacity cfg"

text \<open>The entry in slot \<open>inner\<close> of directory \<open>outer\<close>, when that directory exists.\<close>

definition pte_at :: "pagetable \<Rightarrow> nat \<Rightarrow> nat \<Rightarrow> pte option" where
  "pte_at pt outer inner =
     (if length pt \<le> outer then None
      else case pt ! outer of
        Ptr dir \<Rightarrow> if length dir \<le> inner then None else Some (dir ! inner)
      | _ \<Rightarrow> None)"

text \<open>The page table walk for a virtual page number, split as the source splits it.\<close>

definition lookup_pte :: "config \<Rightarrow> pagetable \<Rightarrow> u32 \<Rightarrow> pte option" where
  "lookup_pte cfg pt vpn =
     pte_at pt (unat vpn div NR_PTES_PER_PAGE cfg) (unat vpn mod NR_PTES_PER_PAGE cfg)"

text \<open>All entries of a page table, and the number of its valid entries bound to a frame.\<close>

definition all_ptes :: "pagetable \<Rightarrow> pte list" where
  "all_ptes pt = concat (map (\<lambda>d. case d of Ptr ptes \<Rightarrow> ptes | _ \<Rightarrow> []) pt)"

definition mappings_of :: "pagetable \<Rightarrow> nat \<Rightarrow> nat" where
  "mappings_of pt f = length (filter (\<lambda>e. valid e \<and> unat (pfn e) = f) (all_ptes pt))"

definition pfns_in_range :: "config \<Rightarrow> pagetable \<Rightarrow> bool" where
  "pfns_in_range cfg pt =
     list_all (\<lambda>e. \<not> valid e \<or> unat (pfn e) < NR_PAGEFRAMES cfg) (all_ptes pt)"

text \<open>What one pass of the fork loop does to an entry of the parent, to the counts, and
  to a directory of the child.\<close>

definition cow_protect :: "pte \<Rightarrow> pte" where
  "cow_protect e = (if valid e then e\<lparr>writable := False\<rparr> else e)"

definition count_mapping :: "u32 list \<Rightarrow> pte \<Rightarrow> u32 list" where
  "count_mapping mc e =
     (if valid e then mc[unat (pfn e) := mc ! unat (pfn e) + 1] else mc)"

definition child_directory :: "pte_directory \<Rightarrow> pte_directory \<Rightarrow> pte_directory" where
  "child_directory pd cd = map2 (\<lambda>e c. if valid e then forked_pte e else c) pd cd"

definition child_table :: "config \<Rightarrow> pagetable \<Rightarrow> pagetable \<Rightarrow> pagetable" where
  "child_table cfg ppt cpt =
     map2 (\<lambda>d c. case d of Ptr pd \<Rightarrow> Ptr (child_directory pd (malloc_directory cfg))
                  | _ \<Rightarrow> c) ppt cpt"

text \<open>
  The pages of read-only origin, tracked along a run.  For one process, the first set
  holds the virtual pages that were requested with \<open>RW_READ\<close> and not freed since; the
  second set holds those of them on which no later \<^verbatim>\<open>alloc_page\<close> call asked for
  \<open>RW_WRITE | RW_READ\<close>.  The tests on \<open>rw\<close> are those of lines 144 and 147, in their
  order.  The tracker holds such a pair for the running process and one for each process
  of the ready list (in the order of the list); a fork hands the pair of the parent to the
  child, as it hands over the entries.
\<close>

type_synonym tracked = "u32 set \<times> u32 set"
type_synonym ro_pages = "tracked \<times> tracked list"

definition ro_alloc :: "config \<Rightarrow> u32 \<Rightarrow> u32 \<Rightarrow> tracked \<Rightarrow> tracked" where
  "ro_alloc cfg vpn rw t =
     (if rw = RW_READ cfg then (insert vpn (fst t), insert vpn (snd t))
      else if rw = (RW_WRITE cfg OR RW_READ cfg) then (fst t, snd t - {vpn})
      else t)"

definition ro_step :: "config \<Rightarrow> op \<Rightarrow> state \<Rightarrow> ro_pages \<Rightarrow> ro_pages" where
  "ro_step cfg x s g =
     (case x of
        Alloc_page vpn rw \<Rightarrow> (ro_alloc cfg vpn rw (fst g), snd g)
      | Free_page vpn \<Rightarrow> ((fst (fst g) - {vpn}, snd (fst g) - {vpn}), snd g)
      | Switch_process p \<Rightarrow>
          (case find_pid (processes s) p of
             Some k \<Rightarrow> (snd g ! k, take k (snd g) @ drop (Suc k) (snd g) @ [fst g])
           | None \<Rightarrow> (fst g, snd g @ [fst g]))
      | _ \<Rightarrow> g)"

fun ro_run :: "config \<Rightarrow> op list \<Rightarrow> state \<Rightarrow> ro_pages \<Rightarrow> ro_pages" where
  "ro_run cfg [] s g = g"
| "ro_run cfg (x # xs) s g =
     (case step cfg x s of Inl err \<Rightarrow> g | Inr s' \<Rightarrow> ro_run cfg xs s' (ro_step cfg x s g))"

text \<open>
  \<open>ro_tagged\<close>: the page has an entry that is valid and carries the tag \<open>RW_READ\<close>;
  \<open>ro_entry\<close>: that entry is not writable either.
\<close>

definition ro_tagged :: "config \<Rightarrow> pagetable \<Rightarrow> u32 \<Rightarrow> bool" where
  "ro_tagged cfg pt vpn =
     (case lookup_pte cfg pt vpn of
        None \<Rightarrow> False
      | Some e \<Rightarrow> valid e \<and> pte_private e = RW_READ cfg)"

definition ro_entry :: "config \<Rightarrow> pagetable \<Rightarrow> u32 \<Rightarrow> bool" where
  "ro_entry cfg pt vpn =
     (case lookup_pte cfg pt vpn of
        None \<Rightarrow> False
      | Some e \<Rightarrow> valid e \<and> \<not> writable e \<and> pte_private e = RW_READ cfg)"

text \<open>
  The invariant of a run: in the page table of each process, every page of the first set
  is tagged and every page of the second set has a read-only entry.  A page table of a run
  may hold wild pointers (a fork leaves them in the table of the child), so the invariant
  asks for the extents only.
\<close>

definition tracked_inv :: "config \<Rightarrow> pagetable \<Rightarrow> tracked \<Rightarrow> bool" where
  "tracked_inv cfg pt t \<longleftrightarrow>
     pagetable_extents cfg pt \<and>
     (\<forall>vpn\<in>fst t. ro_tagged cfg pt vpn) \<and> (\<forall>vpn\<in>snd t. ro_entry cfg pt vpn)"

definition ro_inv :: "config \<Rightarrow> state \<Rightarrow> ro_pages \<Rightarrow> bool" where
  "ro_inv cfg s g \<longleftrightarrow>
     tracked_inv cfg (ptbr s) (fst g) \<and>
     list_all2 (\<lambda>p t. tracked_inv cfg (pagetable p) t) (processes s) (snd g)"

section \<open>A small configuration\<close>

text \<open>
  Four page frames, four entries per directory (sixteen virtual pages, sixteen TLB
  slots), \<open>RW_READ = 1\<close>, \<open>RW_WRITE = 2\<close>, and blocks from \<^verbatim>\<open>malloc\<close> that are zero-filled.
  \<open>boot_state\<close> is the state before any operation: process 0 runs with an empty page
  table, the ready list is empty, no frame is mapped and the TLB is empty (\<^verbatim>\<open>tlbSize = 0\<close>,
  line 45).
\<close>

definition zero_pte :: pte where
  "zero_pte = \<lparr>valid = False, writable = False, pfn = 0, pte_private = 0\<rparr>"

definition small_config :: config where
  "small_config =
     \<lparr>NR_PAGEFRAMES = 4, NR_PTES_PER_PAGE = 4, PTES_PER_PAGE_SHIFT = 2,
      RW_READ = 1, RW_WRITE = 2, malloc_pte = (\<lambda>_. zero_pte), malloc_null = (\<lambda>_. True)\<rparr>"

definition boot_state :: "config \<Rightarrow> state" where
  "boot_state cfg =
     \<lparr>tlb = replicate (tlb_capacity cfg) zero_tlb_entry, tlbSize = 0,
      mapcounts = replicate (NR_PAGEFRAMES cfg) 0,
      current = \<lparr>pid = 0, pagetable = replicate (NR_PTES_PER_PAGE cfg) Null\<rparr>,
      processes = []\<rparr>"

text \<open>
  States of runs from \<open>boot_state small_config\<close>:
  \<^item> \<open>full_state\<close>: page 0 allocated read-only, pages 1, 2, 3 read-write; no frame is free;
  \<^item> \<open>one_page_state\<close>: page 0 allocated read-write;
  \<^item> \<open>shared_state\<close>: then a fork to pid 1, so that frame 0 is shared;
  \<^item> \<open>sole_state\<close>: then the child frees page 0 and the parent runs again;
  \<^item> \<open>shared_full_state\<close>: pages 0 to 3 allocated read-write, then a fork to pid 1.
\<close>

definition rw_pte :: "u32 \<Rightarrow> pte" where
  "rw_pte f = \<lparr>valid = True, writable = True, pfn = f, pte_private = 0\<rparr>"

definition cow_pte :: "u32 \<Rightarrow> pte" where
  "cow_pte f = \<lparr>valid = True, writable = False, pfn = f, pte_private = 0\<rparr>"

definition ro_pte :: "u32 \<Rightarrow> pte" where
  "ro_pte f = \<lparr>valid = True, writable = False, pfn = f, pte_private = 1\<rparr>"

definition empty_tlb :: "tlb_entry list" where
  "empty_tlb = replicate 16 zero_tlb_entry"

definition full_state :: state where
  "full_state =
     \<lparr>tlb = empty_tlb, tlbSize = 0, mapcounts = [1, 1, 1, 1],
      current = \<lparr>pid = 0,
        pagetable = [Ptr [ro_pte 0, rw_pte 1, rw_pte 2, rw_pte 3], Null, Null, Null]\<rparr>,
      processes = []\<rparr>"

definition one_page_state :: state where
  "one_page_state =
     \<lparr>tlb = empty_tlb, tlbSize = 0, mapcounts = [1, 0, 0, 0],
      current = \<lparr>pid = 0,
        pagetable = [Ptr [rw_pte 0, zero_pte, zero_pte, zero_pte], Null, Null, Null]\<rparr>,
      processes = []\<rparr>"

definition shared_state :: state where
  "shared_state =
     \<lparr>tlb = empty_tlb, tlbSize = 0, mapcounts = [2, 0, 0, 0],
      current = \<lparr>pid = 1,
        pagetable = [Ptr [cow_pte 0, zero_pte, zero_pte, zero_pte], Null, Null, Null]\<rparr>,
      processes = [\<lparr>pid = 0,
        pagetable = [Ptr [cow_pte 0, zero_pte, zero_pte, zero_pte], Null, Null, Null]\<rparr>]\<rparr>"

definition sole_state :: state where
  "sole_state =
     \<lparr>tlb = empty_tlb, tlbSize = 0, mapcounts = [1, 0, 0, 0],
      current = \<lparr>pid = 0,
        pagetable = [Ptr [cow_pte 0, zero_pte, zero_pte, zero_pte], Null, Null, Null]\<rparr>,
      processes = [\<lparr>pid = 1,
        pagetable = [Ptr [zero_pte, zero_pte, zero_pte, zero_pte], Null, Null, Null]\<rparr>]\<rparr>"

definition shared_full_state :: state where
  "shared_full_state =
     \<lparr>tlb = empty_tlb, tlbSize = 0, mapcounts = [2, 2, 2, 2],
      current = \<lparr>pid = 1,
        pagetable = [Ptr [cow_pte 0, cow_pte 1, cow_pte 2, cow_pte 3], Null, Null, Null]\<rparr>,
      processes = [\<lparr>pid = 0,
        pagetable = [Ptr [cow_pte 0, cow_pte 1, cow_pte 2, cow_pte 3], Null, Null, Null]\<rparr>]\<rparr>"

text \<open>
  \<open>wild_config\<close> is \<open>small_config\<close> with a \<^verbatim>\<open>malloc\<close> whose block for a \<^verbatim>\<open>struct process\<close> holds
  no NULL.  \<open>ro_fork_state\<close> is the state of the run from \<open>boot_state wild_config\<close> that
  allocates the pages 5 and 6 read-only, allocates page 6 again with read-write access
  (frame 2) and forks process 1: the page table of the child has wild pointers where the
  parent has no directory.
\<close>

definition wild_config :: config where
  "wild_config = small_config\<lparr>malloc_null := (\<lambda>_. False)\<rparr>"

definition ro_fork_state :: state where
  "ro_fork_state =
     \<lparr>tlb = empty_tlb, tlbSize = 0, mapcounts = [2, 1, 2, 0],
      current = \<lparr>pid = 1,
        pagetable = [Wild, Ptr [zero_pte, ro_pte 0, ro_pte 2, zero_pte], Wild, Wild]\<rparr>,
      processes = [\<lparr>pid = 0,
        pagetable = [Null, Ptr [zero_pte, ro_pte 0, ro_pte 2, zero_pte], Null, Null]\<rparr>]\<rparr>"

section \<open>Properties\<close>

subsection \<open>The example states are states of runs\<close>

lemma run_full_state:
  "run_ops small_config [Alloc_page 0 1, Alloc_page 1 3, Alloc_page 2 3, Alloc_page 3 3]
     (boot_state small_config) = Inr full_state"
  by code_simp

lemma run_one_page_state:
  "run_ops small_config [Alloc_page 0 3] (boot_state small_config) = Inr one_page_state"
  by code_simp

lemma run_shared_state:
  "run_ops small_config [Switch_process 1] one_page_state = Inr shared_state"
  by code_simp

lemma run_sole_state:
  "run_ops small_config [Free_page 0, Switch_process 0] shared_state = Inr sole_state"
  by code_simp

lemma run_shared_full_state:
  "run_ops small_config
     [Alloc_page 0 3, Alloc_page 1 3, Alloc_page 2 3, Alloc_page 3 3, Switch_process 1]
     (boot_state small_config) = Inr shared_full_state"
  by code_simp

lemma wf_small_config: "wf_config small_config"
  by (simp add: wf_config_def small_config_def)

lemma wf_examples:
  "wf_state small_config (boot_state small_config)"
  "wf_state small_config full_state"
  "wf_state small_config one_page_state"
  "wf_state small_config shared_state"
  "wf_state small_config sole_state"
  "wf_state small_config shared_full_state"
  by code_simp+

lemma small_vpn_in_range:
  "unat (0 :: u32) < NR_PTES_PER_PAGE small_config * NR_PTES_PER_PAGE small_config"
  "unat (5 :: u32) < NR_PTES_PER_PAGE small_config * NR_PTES_PER_PAGE small_config"
  by (simp_all add: small_config_def)

lemma free_frame_iff:
  "length mc = n \<Longrightarrow> (\<exists>f<n. mc ! f = (0 :: u32)) \<longleftrightarrow> 0 \<in> set mc"
  by (auto simp: in_set_conv_nth)

lemma full_state_no_free_frame:
  "\<not> (\<exists>f<NR_PAGEFRAMES small_config. mapcounts full_state ! f = 0)"
  by (subst free_frame_iff) (simp_all add: small_config_def full_state_def)

lemma one_page_state_entry:
  "lookup_pte small_config (ptbr one_page_state) 1 = Some zero_pte" "\<not> valid zero_pte"
  "unat (1 :: u32) < NR_PTES_PER_PAGE small_config * NR_PTES_PER_PAGE small_config"
  by code_simp+

lemma shared_state_entry: "lookup_pte small_config (ptbr shared_state) 0 = Some (cow_pte 0)"
  by code_simp

lemma sole_state_entry: "lookup_pte small_config (ptbr sole_state) 0 = Some (cow_pte 0)"
  by code_simp

lemma shared_full_state_entry:
  "lookup_pte small_config (ptbr shared_full_state) 0 = Some (cow_pte 0)"
  by code_simp

lemma cow_pte_facts:
  "valid (cow_pte 0)" "\<not> writable (cow_pte 0)"
  "(3 :: u32) AND RW_WRITE small_config = RW_WRITE small_config"
  "pte_private (cow_pte 0) \<noteq> RW_READ small_config"
  "unat (pfn (cow_pte 0)) < NR_PAGEFRAMES small_config"
  by (simp_all add: cow_pte_def small_config_def)

subsection \<open>The search for a free frame\<close>

lemma find_smallest_loop_result:
  "NR_PAGEFRAMES cfg \<le> length mc \<Longrightarrow> i \<le> NR_PAGEFRAMES cfg \<Longrightarrow>
   \<exists>k. find_smallest_loop cfg mc i = Inr k \<and> i \<le> k \<and> k \<le> NR_PAGEFRAMES cfg \<and>
       (k < NR_PAGEFRAMES cfg \<longrightarrow> mc ! k = 0) \<and> (\<forall>f. i \<le> f \<and> f < k \<longrightarrow> mc ! f \<noteq> 0)"
proof (induction cfg mc i rule: find_smallest_loop.induct)
  case (1 cfg mc i)
  show ?case
  proof (cases "i < NR_PAGEFRAMES cfg")
    case False
    with "1.prems" show ?thesis
      by (subst find_smallest_loop.simps) auto
  next
    case True
    note inb = this
    show ?thesis
    proof (cases "mc ! i = 0")
      case True
      with inb "1.prems" show ?thesis
        by (subst find_smallest_loop.simps) auto
    next
      case False
      from inb "1.prems" False have "\<exists>k. find_smallest_loop cfg mc (i + 1) = Inr k \<and> i + 1 \<le> k \<and> k \<le> NR_PAGEFRAMES cfg \<and>
       (k < NR_PAGEFRAMES cfg \<longrightarrow> mc ! k = 0) \<and> (\<forall>f. i + 1 \<le> f \<and> f < k \<longrightarrow> mc ! f \<noteq> 0)"
        by (intro "1.IH") auto
      then obtain k where k: "find_smallest_loop cfg mc (i + 1) = Inr k" "i + 1 \<le> k" "k \<le> NR_PAGEFRAMES cfg"
        "k < NR_PAGEFRAMES cfg \<longrightarrow> mc ! k = 0" "\<forall>f. i + 1 \<le> f \<and> f < k \<longrightarrow> mc ! f \<noteq> 0"
        by blast
      have "\<forall>f. i \<le> f \<and> f < k \<longrightarrow> mc ! f \<noteq> 0"
      proof (intro allI impI)
        fix f assume "i \<le> f \<and> f < k"
        then show "mc ! f \<noteq> 0" using False k(5) by (cases "f = i") auto
      qed
      with k inb "1.prems" False show ?thesis
        by (subst find_smallest_loop.simps) auto
    qed
  qed
qed

lemma find_smallest_pfn_free:
  assumes "length mc = NR_PAGEFRAMES cfg" and "\<exists>f<NR_PAGEFRAMES cfg. mc ! f = 0"
  shows "\<exists>k. find_smallest_pfn cfg mc = Inr k \<and> k < NR_PAGEFRAMES cfg \<and> mc ! k = 0 \<and>
             (\<forall>f<k. mc ! f \<noteq> 0)"
proof -
  from find_smallest_loop_result [of cfg mc 0] assms(1)
  obtain k where k: "find_smallest_loop cfg mc 0 = Inr k" "k \<le> NR_PAGEFRAMES cfg"
    "k < NR_PAGEFRAMES cfg \<longrightarrow> mc ! k = 0" "\<forall>f. f < k \<longrightarrow> mc ! f \<noteq> 0"
    by auto
  from assms(2) k(4) have "k \<noteq> NR_PAGEFRAMES cfg" by auto
  with k show ?thesis by (auto simp: find_smallest_pfn_def)
qed

lemma find_smallest_pfn_full:
  assumes "length mc = NR_PAGEFRAMES cfg" and "\<forall>f<NR_PAGEFRAMES cfg. mc ! f \<noteq> 0"
  shows "find_smallest_pfn cfg mc = Inr (NR_PAGEFRAMES cfg)"
proof -
  from find_smallest_loop_result [of cfg mc 0] assms(1)
  obtain k where k: "find_smallest_loop cfg mc 0 = Inr k" "k \<le> NR_PAGEFRAMES cfg"
    "k < NR_PAGEFRAMES cfg \<longrightarrow> mc ! k = 0"
    by auto
  from assms(2) k(2,3) have "k = NR_PAGEFRAMES cfg" by (cases "k < NR_PAGEFRAMES cfg") auto
  with k show ?thesis by (simp add: find_smallest_pfn_def)
qed

subsection \<open>Walking and updating a page table\<close>

lemma vpn_outer_inner:
  assumes "0 < (n::nat)" "v < n * n"
  shows "v div n < n" "\<not> n \<le> v div n" "v mod n < n" "\<not> n \<le> v mod n"
  using assms by (simp_all add: less_mult_imp_div_less not_le)

lemma wf_pagetable_dir:
  "wf_pagetable cfg pt \<Longrightarrow> i < NR_PTES_PER_PAGE cfg \<Longrightarrow> pt ! i = Ptr d \<Longrightarrow> length d = NR_PTES_PER_PAGE cfg"
  by (auto simp: wf_pagetable_def list_all_length split: option.splits ptr.splits)

lemma wf_pagetable_no_wild:
  "wf_pagetable cfg pt \<Longrightarrow> i < NR_PTES_PER_PAGE cfg \<Longrightarrow> pt ! i \<noteq> Wild"
  by (auto simp: wf_pagetable_def list_all_length split: ptr.splits)

lemma wf_pagetable_extents: "wf_pagetable cfg pt \<Longrightarrow> pagetable_extents cfg pt"
  by (auto simp: wf_pagetable_def pagetable_extents_def list_all_length split: ptr.splits)

lemma length_malloc_directory [simp]: "length (malloc_directory cfg) = NR_PTES_PER_PAGE cfg"
  by (simp add: malloc_directory_def)

lemma ptbr_set_pte [simp]: "ptbr (set_pte outer inner dir e s) = (ptbr s)[outer := Ptr (dir[inner := e])]"
  by (simp add: set_pte_def set_ptbr_def ptbr_def)

lemma set_pte_fields [simp]:
  "mapcounts (set_pte outer inner dir e s) = mapcounts s"
  "tlb (set_pte outer inner dir e s) = tlb s"
  "tlbSize (set_pte outer inner dir e s) = tlbSize s"
  "processes (set_pte outer inner dir e s) = processes s"
  "pid (current (set_pte outer inner dir e s)) = pid (current s)"
  by (simp_all add: set_pte_def set_ptbr_def)

lemma ptbr_upd [simp]:
  "ptbr (s\<lparr>mapcounts := mc\<rparr>) = ptbr s"
  "ptbr (s\<lparr>tlb := t\<rparr>) = ptbr s"
  "ptbr (s\<lparr>tlbSize := n\<rparr>) = ptbr s"
  "ptbr (s\<lparr>processes := ps\<rparr>) = ptbr s"
  by (simp_all add: ptbr_def)

lemma lookup_pte_update:
  assumes "wf_pagetable cfg pt" "0 < NR_PTES_PER_PAGE cfg"
    and "unat vpn < NR_PTES_PER_PAGE cfg * NR_PTES_PER_PAGE cfg"
    and "length dir = NR_PTES_PER_PAGE cfg"
  shows "lookup_pte cfg (pt[unat vpn div NR_PTES_PER_PAGE cfg :=
            Ptr (dir[unat vpn mod NR_PTES_PER_PAGE cfg := e])]) vpn = Some e"
  using assms(1,4) vpn_outer_inner [OF assms(2,3)]
  by (simp add: lookup_pte_def pte_at_def Let_def wf_pagetable_def)

lemma valid_alloc_perm [simp]: "valid (alloc_perm cfg rw e) = valid e"
  by (simp add: alloc_perm_def)

lemma pfn_alloc_perm [simp]: "pfn (alloc_perm cfg rw e) = pfn e"
  by (simp add: alloc_perm_def)

lemma lookup_pte_in_range:
  assumes "wf_pagetable cfg pt" "0 < NR_PTES_PER_PAGE cfg"
    and "unat vpn < NR_PTES_PER_PAGE cfg * NR_PTES_PER_PAGE cfg"
  shows "lookup_pte cfg pt vpn =
           (case pt ! (unat vpn div NR_PTES_PER_PAGE cfg) of
              Ptr dir \<Rightarrow> Some (dir ! (unat vpn mod NR_PTES_PER_PAGE cfg))
            | _ \<Rightarrow> None)"
proof -
  note oi = vpn_outer_inner [OF assms(2,3)]
  from assms(1) have len: "length pt = NR_PTES_PER_PAGE cfg" by (simp add: wf_pagetable_def)
  show ?thesis
  proof (cases "pt ! (unat vpn div NR_PTES_PER_PAGE cfg)")
    case Null
    with oi len show ?thesis by (simp add: lookup_pte_def pte_at_def Let_def)
  next
    case Wild
    with oi len show ?thesis by (simp add: lookup_pte_def pte_at_def Let_def)
  next
    case (Ptr d)
    from wf_pagetable_dir [OF assms(1) oi(1) Ptr] oi len Ptr show ?thesis
      by (simp add: lookup_pte_def pte_at_def Let_def)
  qed
qed

lemma lookup_pte_SomeD:
  assumes "wf_pagetable cfg pt" "0 < NR_PTES_PER_PAGE cfg"
    and "unat vpn < NR_PTES_PER_PAGE cfg * NR_PTES_PER_PAGE cfg"
    and "lookup_pte cfg pt vpn = Some e"
  shows "\<exists>dir. pt ! (unat vpn div NR_PTES_PER_PAGE cfg) = Ptr dir \<and>
           length dir = NR_PTES_PER_PAGE cfg \<and> dir ! (unat vpn mod NR_PTES_PER_PAGE cfg) = e"
proof -
  note oi = vpn_outer_inner [OF assms(2,3)]
  from assms(4) lookup_pte_in_range [OF assms(1-3)]
  obtain dir where d: "pt ! (unat vpn div NR_PTES_PER_PAGE cfg) = Ptr dir"
    "dir ! (unat vpn mod NR_PTES_PER_PAGE cfg) = e"
    by (cases "pt ! (unat vpn div NR_PTES_PER_PAGE cfg)") auto
  with wf_pagetable_dir [OF assms(1) oi(1) d(1)] show ?thesis by simp
qed

lemma div_mod_eq_imp_eq:
  "(a::nat) div n = b div n \<Longrightarrow> a mod n = b mod n \<Longrightarrow> a = b"
  by (metis div_mult_mod_eq)

lemma lookup_pte_other:
  assumes "pt ! (unat vpn div NR_PTES_PER_PAGE cfg) = Ptr dir" and "v \<noteq> vpn"
  shows "lookup_pte cfg (pt[unat vpn div NR_PTES_PER_PAGE cfg :=
            Ptr (dir[unat vpn mod NR_PTES_PER_PAGE cfg := e])]) v = lookup_pte cfg pt v"
proof (cases "unat v div NR_PTES_PER_PAGE cfg = unat vpn div NR_PTES_PER_PAGE cfg")
  case False
  then show ?thesis by (simp add: lookup_pte_def pte_at_def Let_def)
next
  case True
  with assms(2) have "unat v mod NR_PTES_PER_PAGE cfg \<noteq> unat vpn mod NR_PTES_PER_PAGE cfg"
    using div_mod_eq_imp_eq [of "unat v" "NR_PTES_PER_PAGE cfg" "unat vpn"]
    by (auto simp: word_unat_eq_iff)
  with True assms(1) show ?thesis by (auto simp: lookup_pte_def pte_at_def Let_def)
qed

subsection \<open>alloc_page\<close>

text \<open>
  Claim C4.  In a state whose arrays have the extents of the configuration, and for a
  virtual page number inside the page table: when some frame has mapping count 0,
  \<^verbatim>\<open>alloc_page\<close> returns the smallest frame number \<open>k\<close> with count 0, binds it as the pfn of
  the entry of \<open>vpn\<close> and increments the count of \<open>k\<close>; when no frame has count 0, it
  returns \<open>- 1\<close> and the counts are as before.  The result is a function of the state.
\<close>

theorem alloc_page_smallest_free_frame:
  assumes "wf_config cfg" and "wf_state cfg s"
    and "unat vpn < NR_PTES_PER_PAGE cfg * NR_PTES_PER_PAGE cfg"
  shows "if \<exists>f<NR_PAGEFRAMES cfg. mapcounts s ! f = 0
         then \<exists>k s'. alloc_page cfg vpn rw s = Inr (of_nat k, s') \<and> unat (of_nat k :: u32) = k \<and>
                 k < NR_PAGEFRAMES cfg \<and> mapcounts s ! k = 0 \<and> (\<forall>f<k. mapcounts s ! f \<noteq> 0) \<and>
                 map_option pfn (lookup_pte cfg (ptbr s') vpn) = Some (of_nat k) \<and>
                 mapcounts s' = (mapcounts s)[k := mapcounts s ! k + 1]
         else \<exists>s'. alloc_page cfg vpn rw s = Inr (- 1, s') \<and> mapcounts s' = mapcounts s"
proof -
  let ?n = "NR_PTES_PER_PAGE cfg"
  let ?outer = "unat vpn div ?n" and ?inner = "unat vpn mod ?n"
  let ?dir = "case ptbr s ! ?outer of Ptr d \<Rightarrow> d | _ \<Rightarrow> malloc_directory cfg"
  from assms have n: "0 < ?n" and nr: "NR_PAGEFRAMES cfg < 2 ^ 31"
    and pt: "wf_pagetable cfg (ptbr s)" and mc: "length (mapcounts s) = NR_PAGEFRAMES cfg"
    by (simp_all add: wf_config_def wf_state_def)
  from vpn_outer_inner [OF n assms(3)] have oi: "?outer < ?n" "\<not> ?n \<le> ?outer" "?inner < ?n" "\<not> ?n \<le> ?inner" .
  from pt have len: "length (ptbr s) = ?n" by (simp add: wf_pagetable_def)
  have dir: "length ?dir = ?n"
    using wf_pagetable_dir [OF pt oi(1)] by (simp split: option.splits ptr.splits)
  note nw = wf_pagetable_no_wild [OF pt oi(1)]
  show ?thesis
  proof (cases "\<exists>f<NR_PAGEFRAMES cfg. mapcounts s ! f = 0")
    case True
    from find_smallest_pfn_free [OF mc True] obtain k where
      k: "find_smallest_pfn cfg (mapcounts s) = Inr k" "k < NR_PAGEFRAMES cfg"
         "mapcounts s ! k = 0" "\<forall>f<k. mapcounts s ! f \<noteq> 0"
      by blast
    from k(2) nr have "k < 2 ^ 32" by simp
    then have uk: "unat (of_nat k :: u32) = k" by (simp add: unat_of_nat)
    let ?e = "(alloc_perm cfg rw ((?dir ! ?inner)\<lparr>valid := True\<rparr>))\<lparr>pfn := of_nat k\<rparr>"
    let ?s' = "(set_pte ?outer ?inner ?dir ?e s)\<lparr>mapcounts := (mapcounts s)[k := mapcounts s ! k + 1]\<rparr>"
    have run: "alloc_page cfg vpn rw s = Inr (of_nat k, ?s')"
      using k oi len dir mc nw by (simp add: alloc_page_def Let_def)
    have "lookup_pte cfg (ptbr ?s') vpn = Some ?e"
      using lookup_pte_update [OF pt n assms(3) dir] by simp
    with run uk k True show ?thesis by auto
  next
    case False
    then have "\<forall>f<NR_PAGEFRAMES cfg. mapcounts s ! f \<noteq> 0" by simp
    from find_smallest_pfn_full [OF mc this] oi len dir nw
    have "\<exists>s'. alloc_page cfg vpn rw s = Inr (- 1, s') \<and> mapcounts s' = mapcounts s"
      by (simp add: alloc_page_def Let_def)
    then show ?thesis
      by (simp only: False if_False)
  qed
qed

text \<open>
  Claim C4 at the boot state of the small configuration, for page 5 and \<open>RW_READ\<close>, and
  at \<open>full_state\<close>, where no frame is free.
\<close>

theorem alloc_page_smallest_free_frame_witness:
  "wf_config small_config \<and> wf_state small_config (boot_state small_config) \<and>
   wf_state small_config full_state \<and>
   unat (5 :: u32) < NR_PTES_PER_PAGE small_config * NR_PTES_PER_PAGE small_config \<and>
   unat (0 :: u32) < NR_PTES_PER_PAGE small_config * NR_PTES_PER_PAGE small_config \<and>
   (\<exists>f<NR_PAGEFRAMES small_config. mapcounts (boot_state small_config) ! f = 0) \<and>
   \<not> (\<exists>f<NR_PAGEFRAMES small_config. mapcounts full_state ! f = 0) \<and>
   (\<exists>k s'. alloc_page small_config 5 1 (boot_state small_config) = Inr (of_nat k, s') \<and>
      unat (of_nat k :: u32) = k \<and> k < NR_PAGEFRAMES small_config \<and>
      mapcounts (boot_state small_config) ! k = 0 \<and>
      (\<forall>f<k. mapcounts (boot_state small_config) ! f \<noteq> 0) \<and>
      map_option pfn (lookup_pte small_config (ptbr s') 5) = Some (of_nat k) \<and>
      mapcounts s' = (mapcounts (boot_state small_config))
        [k := mapcounts (boot_state small_config) ! k + 1]) \<and>
   (\<exists>s'. alloc_page small_config 0 3 full_state = Inr (- 1, s') \<and>
      mapcounts s' = mapcounts full_state)"
proof -
  have free: "\<exists>f<NR_PAGEFRAMES small_config. mapcounts (boot_state small_config) ! f = 0"
    by (rule exI [of _ 0]) code_simp
  from alloc_page_smallest_free_frame
    [OF wf_small_config wf_examples(1) small_vpn_in_range(2), of 1] free
  have a: "\<exists>k s'. alloc_page small_config 5 1 (boot_state small_config) = Inr (of_nat k, s') \<and>
      unat (of_nat k :: u32) = k \<and> k < NR_PAGEFRAMES small_config \<and>
      mapcounts (boot_state small_config) ! k = 0 \<and>
      (\<forall>f<k. mapcounts (boot_state small_config) ! f \<noteq> 0) \<and>
      map_option pfn (lookup_pte small_config (ptbr s') 5) = Some (of_nat k) \<and>
      mapcounts s' = (mapcounts (boot_state small_config))
        [k := mapcounts (boot_state small_config) ! k + 1]"
    by (simp only: if_True)
  from alloc_page_smallest_free_frame
    [OF wf_small_config wf_examples(2) small_vpn_in_range(1), of 3] full_state_no_free_frame
  have b: "\<exists>s'. alloc_page small_config 0 3 full_state = Inr (- 1, s') \<and>
      mapcounts s' = mapcounts full_state"
    by (simp only: if_False)
  from wf_small_config wf_examples(1,2) small_vpn_in_range(2,1) free full_state_no_free_frame
    a b
  show ?thesis by (intro conjI)
qed

text \<open>
  Claim C9.  When no frame has mapping count 0, \<^verbatim>\<open>alloc_page\<close> returns \<open>- 1\<close> and leaves the
  counts, the TLB and the ready list as they were, but the entry of \<open>vpn\<close> in the page table
  of the running process exists afterwards (in a directory that was malloc'ed if it was
  missing), is valid and carries the permission bits that \<open>rw\<close> asks for: the failed
  allocation has changed the page table.
\<close>

theorem alloc_page_out_of_memory_not_atomic:
  assumes "wf_config cfg" and "wf_state cfg s"
    and "unat vpn < NR_PTES_PER_PAGE cfg * NR_PTES_PER_PAGE cfg"
    and "\<not> (\<exists>f<NR_PAGEFRAMES cfg. mapcounts s ! f = 0)"
  shows "\<exists>s' e'. alloc_page cfg vpn rw s = Inr (- 1, s') \<and>
           mapcounts s' = mapcounts s \<and> tlb s' = tlb s \<and> tlbSize s' = tlbSize s \<and>
           processes s' = processes s \<and>
           lookup_pte cfg (ptbr s') vpn = Some e' \<and> valid e' \<and>
           e' = alloc_perm cfg rw
                  ((case lookup_pte cfg (ptbr s) vpn of
                      None \<Rightarrow> malloc_pte cfg (unat vpn mod NR_PTES_PER_PAGE cfg)
                    | Some e \<Rightarrow> e)\<lparr>valid := True\<rparr>) \<and>
           (if rw = RW_READ cfg then \<not> writable e' \<and> pte_private e' = RW_READ cfg
            else if rw = (RW_WRITE cfg OR RW_READ cfg) then writable e'
            else True)"
proof -
  let ?n = "NR_PTES_PER_PAGE cfg"
  let ?outer = "unat vpn div ?n" and ?inner = "unat vpn mod ?n"
  let ?dir = "case ptbr s ! ?outer of Ptr d \<Rightarrow> d | _ \<Rightarrow> malloc_directory cfg"
  let ?old = "case lookup_pte cfg (ptbr s) vpn of
                      None \<Rightarrow> malloc_pte cfg ?inner | Some e \<Rightarrow> e"
  let ?e = "alloc_perm cfg rw (?old\<lparr>valid := True\<rparr>)"
  from assms have n: "0 < ?n"
    and pt: "wf_pagetable cfg (ptbr s)" and mc: "length (mapcounts s) = NR_PAGEFRAMES cfg"
    by (simp_all add: wf_config_def wf_state_def)
  note oi = vpn_outer_inner [OF n assms(3)]
  from pt have len: "length (ptbr s) = ?n" by (simp add: wf_pagetable_def)
  have dir: "length ?dir = ?n"
    using wf_pagetable_dir [OF pt oi(1)] by (simp split: option.splits ptr.splits)
  note nw = wf_pagetable_no_wild [OF pt oi(1)]
  have old: "?dir ! ?inner = ?old"
    using oi by (simp add: lookup_pte_in_range [OF pt n assms(3)] malloc_directory_def
        split: option.splits ptr.splits)
  have run: "alloc_page cfg vpn rw s = Inr (- 1, set_pte ?outer ?inner ?dir ?e s)"
    using find_smallest_pfn_full [OF mc] assms(4) oi len dir nw
    by (simp add: alloc_page_def Let_def old)
  have look: "lookup_pte cfg (ptbr (set_pte ?outer ?inner ?dir ?e s)) vpn = Some ?e"
    using lookup_pte_update [OF pt n assms(3) dir] by simp
  have perm: "if rw = RW_READ cfg then \<not> writable ?e \<and> pte_private ?e = RW_READ cfg
            else if rw = (RW_WRITE cfg OR RW_READ cfg) then writable ?e else True"
    by (simp add: alloc_perm_def)
  show ?thesis
    apply (rule exI [of _ "set_pte ?outer ?inner ?dir ?e s"])
    apply (rule exI [of _ ?e])
    apply (intro conjI run look perm refl)
    apply simp_all
    done
qed

text \<open>
  Claim C9 at \<open>full_state\<close>, for page 0 and read-write access.
\<close>

theorem alloc_page_out_of_memory_not_atomic_witness:
  "wf_config small_config \<and> wf_state small_config full_state \<and>
   unat (0 :: u32) < NR_PTES_PER_PAGE small_config * NR_PTES_PER_PAGE small_config \<and>
   \<not> (\<exists>f<NR_PAGEFRAMES small_config. mapcounts full_state ! f = 0) \<and>
   (\<exists>s' e'. alloc_page small_config 0 3 full_state = Inr (- 1, s') \<and>
           mapcounts s' = mapcounts full_state \<and> tlb s' = tlb full_state \<and>
           tlbSize s' = tlbSize full_state \<and> processes s' = processes full_state \<and>
           lookup_pte small_config (ptbr s') 0 = Some e' \<and> valid e' \<and>
           e' = alloc_perm small_config 3
                  ((case lookup_pte small_config (ptbr full_state) 0 of
                      None \<Rightarrow> malloc_pte small_config (unat (0 :: u32) mod NR_PTES_PER_PAGE small_config)
                    | Some e \<Rightarrow> e)\<lparr>valid := True\<rparr>) \<and>
           (if (3 :: u32) = RW_READ small_config
            then \<not> writable e' \<and> pte_private e' = RW_READ small_config
            else if (3 :: u32) = (RW_WRITE small_config OR RW_READ small_config) then writable e'
            else True))"
proof -
  note full = full_state_no_free_frame
  from alloc_page_out_of_memory_not_atomic
    [OF wf_small_config wf_examples(2) small_vpn_in_range(1) full, of 3]
    wf_small_config wf_examples(2) small_vpn_in_range(1) full
  show ?thesis by (intro conjI)
qed

subsection \<open>handle_page_fault\<close>

text \<open>
  Claim C8.  When the directory of \<open>vpn\<close> is missing or the entry of \<open>vpn\<close> is not valid,
  \<^verbatim>\<open>handle_page_fault\<close> returns false and the whole state (page tables, counts, TLB) is
  the one it was called in.
\<close>

theorem handle_page_fault_unmapped:
  assumes "wf_config cfg" and "wf_state cfg s"
    and "unat vpn < NR_PTES_PER_PAGE cfg * NR_PTES_PER_PAGE cfg"
    and "ptbr s ! (unat vpn div NR_PTES_PER_PAGE cfg) = Null \<or>
         (\<exists>e. lookup_pte cfg (ptbr s) vpn = Some e \<and> \<not> valid e)"
  shows "handle_page_fault cfg vpn rw s = Inr (False, s)"
proof -
  let ?n = "NR_PTES_PER_PAGE cfg"
  let ?outer = "unat vpn div ?n" and ?inner = "unat vpn mod ?n"
  from assms have n: "0 < ?n"
    and pt: "wf_pagetable cfg (ptbr s)"
    by (simp_all add: wf_config_def wf_state_def)
  note oi = vpn_outer_inner [OF n assms(3)]
  from pt have len: "length (ptbr s) = ?n" by (simp add: wf_pagetable_def)
  from assms(4) show ?thesis
  proof
    assume "ptbr s ! ?outer = Null"
    with oi len show ?thesis by (simp add: handle_page_fault_def Let_def)
  next
    assume "\<exists>e. lookup_pte cfg (ptbr s) vpn = Some e \<and> \<not> valid e"
    then obtain e where e: "lookup_pte cfg (ptbr s) vpn = Some e" "\<not> valid e" by blast
    from lookup_pte_SomeD [OF pt n assms(3) e(1)] obtain dir where
      dir: "ptbr s ! ?outer = Ptr dir" "length dir = ?n" "dir ! ?inner = e"
      by blast
    with oi len e(2) show ?thesis by (simp add: handle_page_fault_def Let_def)
  qed
qed

text \<open>
  Claim C8 at the boot state, for page 5, whose directory is missing, and at
  \<open>one_page_state\<close>, for page 1, whose entry is not valid.
\<close>

theorem handle_page_fault_unmapped_witness:
  "wf_config small_config \<and> wf_state small_config (boot_state small_config) \<and>
   wf_state small_config one_page_state \<and>
   unat (5 :: u32) < NR_PTES_PER_PAGE small_config * NR_PTES_PER_PAGE small_config \<and>
   unat (1 :: u32) < NR_PTES_PER_PAGE small_config * NR_PTES_PER_PAGE small_config \<and>
   ptbr (boot_state small_config) ! (unat (5 :: u32) div NR_PTES_PER_PAGE small_config) = Null \<and>
   lookup_pte small_config (ptbr one_page_state) 1 = Some zero_pte \<and> \<not> valid zero_pte \<and>
   handle_page_fault small_config 5 3 (boot_state small_config) =
     Inr (False, boot_state small_config) \<and>
   handle_page_fault small_config 1 3 one_page_state = Inr (False, one_page_state)"
proof -
  have none: "ptbr (boot_state small_config) !
      (unat (5 :: u32) div NR_PTES_PER_PAGE small_config) = Null"
    by code_simp
  then have "ptbr (boot_state small_config) !
      (unat (5 :: u32) div NR_PTES_PER_PAGE small_config) = Null \<or>
         (\<exists>e. lookup_pte small_config (ptbr (boot_state small_config)) 5 = Some e \<and> \<not> valid e)"
    by (rule disjI1)
  note a = handle_page_fault_unmapped
    [OF wf_small_config wf_examples(1) small_vpn_in_range(2) this, of 3]
  from one_page_state_entry(1,2)
  have "ptbr one_page_state ! (unat (1 :: u32) div NR_PTES_PER_PAGE small_config) = Null \<or>
         (\<exists>e. lookup_pte small_config (ptbr one_page_state) 1 = Some e \<and> \<not> valid e)"
    by blast
  note b = handle_page_fault_unmapped
    [OF wf_small_config wf_examples(3) one_page_state_entry(3) this, of 3]
  from wf_small_config wf_examples(1,3) small_vpn_in_range(2) one_page_state_entry(3) none
    one_page_state_entry(1,2) a b
  show ?thesis by (intro conjI)
qed

text \<open>
  The branch of lines 250-253, for an entry that does not carry the tag \<open>RW_READ\<close>.  A write
  fault on a valid, non-writable entry whose frame has mapping count exactly 1 succeeds
  and only sets \<open>writable\<close> of that entry: the frame binding, all counts, every other entry
  of the page table, the ready list and the TLB are unchanged.
\<close>

lemma sole_owner_fault_untagged:
  assumes "wf_config cfg" and "wf_state cfg s"
    and "unat vpn < NR_PTES_PER_PAGE cfg * NR_PTES_PER_PAGE cfg"
    and "lookup_pte cfg (ptbr s) vpn = Some e"
    and "valid e" and "\<not> writable e" and "rw AND RW_WRITE cfg = RW_WRITE cfg"
    and "pte_private e \<noteq> RW_READ cfg"
    and "unat (pfn e) < NR_PAGEFRAMES cfg" and "mapcounts s ! unat (pfn e) = 1"
  shows "\<exists>s'. handle_page_fault cfg vpn rw s = Inr (True, s') \<and>
           lookup_pte cfg (ptbr s') vpn = Some (e\<lparr>writable := True\<rparr>) \<and>
           (\<forall>v. v \<noteq> vpn \<longrightarrow> lookup_pte cfg (ptbr s') v = lookup_pte cfg (ptbr s) v) \<and>
           mapcounts s' = mapcounts s \<and> processes s' = processes s \<and>
           tlb s' = tlb s \<and> tlbSize s' = tlbSize s"
proof -
  let ?n = "NR_PTES_PER_PAGE cfg"
  let ?outer = "unat vpn div ?n" and ?inner = "unat vpn mod ?n"
  from assms have n: "0 < ?n"
    and pt: "wf_pagetable cfg (ptbr s)" and mc: "length (mapcounts s) = NR_PAGEFRAMES cfg"
    by (simp_all add: wf_config_def wf_state_def)
  note oi = vpn_outer_inner [OF n assms(3)]
  from pt have len: "length (ptbr s) = ?n" by (simp add: wf_pagetable_def)
  from lookup_pte_SomeD [OF pt n assms(3,4)] obtain dir where
    dir: "ptbr s ! ?outer = Ptr dir" "length dir = ?n" "dir ! ?inner = e"
    by blast
  let ?s' = "set_pte ?outer ?inner dir (e\<lparr>writable := True\<rparr>) s"
  have run: "handle_page_fault cfg vpn rw s = Inr (True, ?s')"
    using oi len dir mc assms(5-10) by (simp add: handle_page_fault_def Let_def)
  have look: "lookup_pte cfg (ptbr ?s') vpn = Some (e\<lparr>writable := True\<rparr>)"
    using lookup_pte_update [OF pt n assms(3) dir(2)] by simp
  have other: "\<forall>v. v \<noteq> vpn \<longrightarrow> lookup_pte cfg (ptbr ?s') v = lookup_pte cfg (ptbr s) v"
    using lookup_pte_other [OF dir(1)] by simp
  from run look other show ?thesis by simp
qed

text \<open>
  So it is at \<open>sole_state\<close>, for a write to page 0, which was allocated read-write and
  never read-only.
\<close>

lemma sole_owner_fault_untagged_example:
  "wf_config small_config \<and> wf_state small_config sole_state \<and>
   unat (0 :: u32) < NR_PTES_PER_PAGE small_config * NR_PTES_PER_PAGE small_config \<and>
   lookup_pte small_config (ptbr sole_state) 0 = Some (cow_pte 0) \<and>
   valid (cow_pte 0) \<and> \<not> writable (cow_pte 0) \<and>
   (3 :: u32) AND RW_WRITE small_config = RW_WRITE small_config \<and>
   pte_private (cow_pte 0) \<noteq> RW_READ small_config \<and>
   unat (pfn (cow_pte 0)) < NR_PAGEFRAMES small_config \<and>
   mapcounts sole_state ! unat (pfn (cow_pte 0)) = 1 \<and>
   (\<exists>s'. handle_page_fault small_config 0 3 sole_state = Inr (True, s') \<and>
           lookup_pte small_config (ptbr s') 0 = Some ((cow_pte 0)\<lparr>writable := True\<rparr>) \<and>
           (\<forall>v. v \<noteq> 0 \<longrightarrow> lookup_pte small_config (ptbr s') v =
                 lookup_pte small_config (ptbr sole_state) v) \<and>
           mapcounts s' = mapcounts sole_state \<and> processes s' = processes sole_state \<and>
           tlb s' = tlb sole_state \<and> tlbSize s' = tlbSize sole_state)"
proof -
  have one: "mapcounts sole_state ! unat (pfn (cow_pte 0)) = 1"
    by (simp add: sole_state_def cow_pte_def)
  from sole_owner_fault_untagged
    [OF wf_small_config wf_examples(5) small_vpn_in_range(1) sole_state_entry cow_pte_facts one]
    wf_small_config wf_examples(5) small_vpn_in_range(1) sole_state_entry cow_pte_facts one
  show ?thesis by (intro conjI)
qed

text \<open>
  Claim C5 fails on the code.  The tag \<^verbatim>\<open>private\<close> is written by \<^verbatim>\<open>alloc_page\<close> for
  \<open>RW_READ\<close> only (line 146) and cleared nowhere: neither by \<^verbatim>\<open>free_page\<close> (lines 184-187)
  nor by an allocation with read-write access (lines 147-149).  Process 0 allocates page 0
  read-only, frees it, and allocates it again with read-write access: the call returns
  frame 0 and the entry is writable, with the tag of the first allocation.  Then it forks
  process 1, which frees its page 0, and runs again.  Now the entry of page 0 is valid and
  not writable, the page was allocated with read-write access, and frame 0 has mapping
  count 1; the write fault on page 0 returns false, where the claim (and the comment of
  line 291) lets the page become writable again.
\<close>

theorem sole_owner_fault_refused:
  "map_sum id
     (\<lambda>s. map_sum id (\<lambda>(r, s'). (r, lookup_pte small_config (ptbr s') 0))
            (alloc_page small_config 0 3 s))
     (run_ops small_config [Alloc_page 0 1, Free_page 0] (boot_state small_config)) =
     Inr (Inr (0, Some \<lparr>valid = True, writable = True, pfn = 0, pte_private = 1\<rparr>)) \<and>
   map_sum id
     (\<lambda>s. (lookup_pte small_config (ptbr s) 0, mapcounts s,
            map_sum id fst (handle_page_fault small_config 0 3 s)))
     (run_ops small_config
        [Alloc_page 0 1, Free_page 0, Alloc_page 0 3, Switch_process 1, Free_page 0,
         Switch_process 0]
        (boot_state small_config)) =
     Inr (Some \<lparr>valid = True, writable = False, pfn = 0, pte_private = 1\<rparr>, [1, 0, 0, 0],
          Inr False)"
  by code_simp

lemma word_two_le_facts:
  fixes c :: u32
  assumes "2 \<le> c"
  shows "c \<noteq> 0" "c \<noteq> 1" "c - 1 \<noteq> 0"
proof -
  from assms have "2 \<le> unat c" by (simp add: word_le_nat_alt)
  then show "c \<noteq> 0" "c \<noteq> 1" by auto
  then show "c - 1 \<noteq> 0" by simp
qed

lemma handle_page_fault_cow_unfold:
  assumes "wf_config cfg" and "wf_state cfg s"
    and "unat vpn < NR_PTES_PER_PAGE cfg * NR_PTES_PER_PAGE cfg"
    and "lookup_pte cfg (ptbr s) vpn = Some e"
    and "valid e" and "\<not> writable e" and "rw AND RW_WRITE cfg = RW_WRITE cfg"
    and "pte_private e \<noteq> RW_READ cfg"
    and "unat (pfn e) < NR_PAGEFRAMES cfg" and "2 \<le> mapcounts s ! unat (pfn e)"
  shows "\<exists>dir. ptbr s ! (unat vpn div NR_PTES_PER_PAGE cfg) = Ptr dir \<and>
           length dir = NR_PTES_PER_PAGE cfg \<and>
           handle_page_fault cfg vpn rw s =
           (let mc = (mapcounts s)[unat (pfn e) := mapcounts s ! unat (pfn e) - 1]
            in case find_smallest_pfn cfg mc of
                 Inl err \<Rightarrow> Inl err
               | Inr k \<Rightarrow>
                   if length mc \<le> unat (of_nat k :: u32) then Inl OutOfBounds
                   else Inr (True,
                          (set_pte (unat vpn div NR_PTES_PER_PAGE cfg)
                             (unat vpn mod NR_PTES_PER_PAGE cfg) dir
                             (e\<lparr>pfn := of_nat k, writable := True\<rparr>) s)
                            \<lparr>mapcounts := mc[unat (of_nat k :: u32) :=
                                mc ! unat (of_nat k :: u32) + 1]\<rparr>))"
proof -
  let ?n = "NR_PTES_PER_PAGE cfg"
  let ?outer = "unat vpn div ?n" and ?inner = "unat vpn mod ?n"
  from assms have n: "0 < ?n"
    and pt: "wf_pagetable cfg (ptbr s)" and mc: "length (mapcounts s) = NR_PAGEFRAMES cfg"
    by (simp_all add: wf_config_def wf_state_def)
  note oi = vpn_outer_inner [OF n assms(3)]
  from pt have len: "length (ptbr s) = ?n" by (simp add: wf_pagetable_def)
  from lookup_pte_SomeD [OF pt n assms(3,4)] obtain dir where
    dir: "ptbr s ! ?outer = Ptr dir" "length dir = ?n" "dir ! ?inner = e"
    by blast
  note c = word_two_le_facts [OF assms(10)]
  have "handle_page_fault cfg vpn rw s =
           (let mc = (mapcounts s)[unat (pfn e) := mapcounts s ! unat (pfn e) - 1]
            in case find_smallest_pfn cfg mc of
                 Inl err \<Rightarrow> Inl err
               | Inr k \<Rightarrow>
                   if length mc \<le> unat (of_nat k :: u32) then Inl OutOfBounds
                   else Inr (True,
                          (set_pte ?outer ?inner dir
                             (e\<lparr>pfn := of_nat k, writable := True\<rparr>) s)
                            \<lparr>mapcounts := mc[unat (of_nat k :: u32) :=
                                mc ! unat (of_nat k :: u32) + 1]\<rparr>))"
    using oi len dir mc assms(5-10) c(2)
    by (simp add: handle_page_fault_def Let_def split: sum.splits)
  with dir show ?thesis by blast
qed

text \<open>
  The branch of lines 255-261, for an entry that does not carry the tag \<open>RW_READ\<close>, in a
  state where some frame has count 0.  A write fault on a valid, non-writable entry whose
  frame \<open>p\<close> has mapping count at least 2: the handler returns true, decrements the count of
  \<open>p\<close>, binds the smallest frame \<open>k\<close> with count 0 to the entry, sets its count to one more,
  and sets \<open>writable\<close>.  Every other entry of the running process, the page tables of all
  processes of the ready list (the siblings), the counts of all frames but \<open>p\<close> and \<open>k\<close>, and
  the TLB are unchanged.
\<close>

lemma cow_duplicate_untagged:
  assumes "wf_config cfg" and "wf_state cfg s"
    and "unat vpn < NR_PTES_PER_PAGE cfg * NR_PTES_PER_PAGE cfg"
    and "lookup_pte cfg (ptbr s) vpn = Some e"
    and "valid e" and "\<not> writable e" and "rw AND RW_WRITE cfg = RW_WRITE cfg"
    and "pte_private e \<noteq> RW_READ cfg"
    and "unat (pfn e) < NR_PAGEFRAMES cfg" and "2 \<le> mapcounts s ! unat (pfn e)"
    and "\<exists>f<NR_PAGEFRAMES cfg. mapcounts s ! f = 0"
  shows "\<exists>k s'. handle_page_fault cfg vpn rw s = Inr (True, s') \<and>
           k < NR_PAGEFRAMES cfg \<and> mapcounts s ! k = 0 \<and> (\<forall>f<k. mapcounts s ! f \<noteq> 0) \<and>
           unat (of_nat k :: u32) = k \<and> k \<noteq> unat (pfn e) \<and>
           lookup_pte cfg (ptbr s') vpn = Some (e\<lparr>pfn := of_nat k, writable := True\<rparr>) \<and>
           mapcounts s' = (mapcounts s)
             [unat (pfn e) := mapcounts s ! unat (pfn e) - 1, k := mapcounts s ! k + 1] \<and>
           (\<forall>v. v \<noteq> vpn \<longrightarrow> lookup_pte cfg (ptbr s') v = lookup_pte cfg (ptbr s) v) \<and>
           processes s' = processes s \<and> tlb s' = tlb s \<and> tlbSize s' = tlbSize s"
proof -
  let ?n = "NR_PTES_PER_PAGE cfg"
  let ?outer = "unat vpn div ?n" and ?inner = "unat vpn mod ?n"
  let ?p = "unat (pfn e)"
  let ?mc = "(mapcounts s)[?p := mapcounts s ! ?p - 1]"
  from assms have n: "0 < ?n" and nr: "NR_PAGEFRAMES cfg < 2 ^ 31"
    and pt: "wf_pagetable cfg (ptbr s)" and mc: "length (mapcounts s) = NR_PAGEFRAMES cfg"
    by (simp_all add: wf_config_def wf_state_def)
  note c = word_two_le_facts [OF assms(10)]
  from handle_page_fault_cow_unfold [OF assms(1-10)] obtain dir where
    dir: "ptbr s ! ?outer = Ptr dir" "length dir = ?n"
    and run: "handle_page_fault cfg vpn rw s =
           (case find_smallest_pfn cfg ?mc of
                 Inl err \<Rightarrow> Inl err
               | Inr k \<Rightarrow>
                   if length ?mc \<le> unat (of_nat k :: u32) then Inl OutOfBounds
                   else Inr (True,
                          (set_pte ?outer ?inner dir
                             (e\<lparr>pfn := of_nat k, writable := True\<rparr>) s)
                            \<lparr>mapcounts := ?mc[unat (of_nat k :: u32) :=
                                ?mc ! unat (of_nat k :: u32) + 1]\<rparr>))"
    by (auto simp: Let_def)
  have same: "?mc ! f = 0 \<longleftrightarrow> mapcounts s ! f = 0" if "f < NR_PAGEFRAMES cfg" for f
    using that mc c by (cases "f = ?p") auto
  from assms(11) same have "\<exists>f<NR_PAGEFRAMES cfg. ?mc ! f = 0" by auto
  from find_smallest_pfn_free [OF _ this] mc obtain k where
    k: "find_smallest_pfn cfg ?mc = Inr k" "k < NR_PAGEFRAMES cfg" "?mc ! k = 0"
       "\<forall>f<k. ?mc ! f \<noteq> 0"
    by auto
  from k(2) nr have "k < 2 ^ 32" by simp
  then have uk: "unat (of_nat k :: u32) = k" by (simp add: unat_of_nat)
  from k(3) same [OF k(2)] have k0: "mapcounts s ! k = 0" by simp
  with c(1) have kp: "k \<noteq> ?p" by auto
  have least: "\<forall>f<k. mapcounts s ! f \<noteq> 0"
    using k(4) k(2) same by auto
  let ?s' = "(set_pte ?outer ?inner dir (e\<lparr>pfn := of_nat k, writable := True\<rparr>) s)
               \<lparr>mapcounts := ?mc[k := ?mc ! k + 1]\<rparr>"
  have run': "handle_page_fault cfg vpn rw s = Inr (True, ?s')"
    using run k(1,2) uk mc by simp
  have look: "lookup_pte cfg (ptbr ?s') vpn = Some (e\<lparr>pfn := of_nat k, writable := True\<rparr>)"
    using lookup_pte_update [OF pt n assms(3) dir(2)] by simp
  have other: "\<forall>v. v \<noteq> vpn \<longrightarrow> lookup_pte cfg (ptbr ?s') v = lookup_pte cfg (ptbr s) v"
    using lookup_pte_other [OF dir(1)] by simp
  have mc': "mapcounts ?s' = (mapcounts s)[?p := mapcounts s ! ?p - 1, k := mapcounts s ! k + 1]"
    using kp by simp
  show ?thesis
    apply (rule exI [of _ k])
    apply (rule exI [of _ ?s'])
    apply (intro conjI run' k(2) k0 least uk kp look mc' other)
    apply simp_all
    done
qed

text \<open>
  So it is at \<open>shared_state\<close>, for a write of the child to page 0, which was allocated
  read-write and never read-only.
\<close>

lemma cow_duplicate_untagged_example:
  "wf_config small_config \<and> wf_state small_config shared_state \<and>
   unat (0 :: u32) < NR_PTES_PER_PAGE small_config * NR_PTES_PER_PAGE small_config \<and>
   lookup_pte small_config (ptbr shared_state) 0 = Some (cow_pte 0) \<and>
   valid (cow_pte 0) \<and> \<not> writable (cow_pte 0) \<and>
   (3 :: u32) AND RW_WRITE small_config = RW_WRITE small_config \<and>
   pte_private (cow_pte 0) \<noteq> RW_READ small_config \<and>
   unat (pfn (cow_pte 0)) < NR_PAGEFRAMES small_config \<and>
   2 \<le> mapcounts shared_state ! unat (pfn (cow_pte 0)) \<and>
   (\<exists>f<NR_PAGEFRAMES small_config. mapcounts shared_state ! f = 0) \<and>
   (\<exists>k s'. handle_page_fault small_config 0 3 shared_state = Inr (True, s') \<and>
           k < NR_PAGEFRAMES small_config \<and> mapcounts shared_state ! k = 0 \<and>
           (\<forall>f<k. mapcounts shared_state ! f \<noteq> 0) \<and>
           unat (of_nat k :: u32) = k \<and> k \<noteq> unat (pfn (cow_pte 0)) \<and>
           lookup_pte small_config (ptbr s') 0 =
             Some ((cow_pte 0)\<lparr>pfn := of_nat k, writable := True\<rparr>) \<and>
           mapcounts s' = (mapcounts shared_state)
             [unat (pfn (cow_pte 0)) := mapcounts shared_state ! unat (pfn (cow_pte 0)) - 1,
              k := mapcounts shared_state ! k + 1] \<and>
           (\<forall>v. v \<noteq> 0 \<longrightarrow> lookup_pte small_config (ptbr s') v =
                 lookup_pte small_config (ptbr shared_state) v) \<and>
           processes s' = processes shared_state \<and> tlb s' = tlb shared_state \<and>
           tlbSize s' = tlbSize shared_state)"
proof -
  have two: "2 \<le> mapcounts shared_state ! unat (pfn (cow_pte 0))"
    by (simp add: shared_state_def cow_pte_def)
  have free: "\<exists>f<NR_PAGEFRAMES small_config. mapcounts shared_state ! f = 0"
    by (rule exI [of _ 1]) (simp add: shared_state_def small_config_def)
  from cow_duplicate_untagged
    [OF wf_small_config wf_examples(4) small_vpn_in_range(1) shared_state_entry cow_pte_facts
      two free]
    wf_small_config wf_examples(4) small_vpn_in_range(1) shared_state_entry cow_pte_facts
    two free
  show ?thesis by (intro conjI)
qed

text \<open>
  Claim C2 fails on the code, at two places.

  The stale tag: \<^verbatim>\<open>private\<close> is written by \<^verbatim>\<open>alloc_page\<close> for \<open>RW_READ\<close> only (line 146)
  and cleared nowhere, neither by \<^verbatim>\<open>free_page\<close> (lines 184-187) nor by an allocation with
  read-write access (lines 147-149).  Process 0 allocates page 0 read-only, frees it,
  allocates it again with read-write access and forks process 1.  The entry of page 0 of
  the child is valid and not writable, the page was allocated with read-write access,
  frame 0 has mapping count 2 and the frames 1, 2 and 3 are free; the write fault on page
  0 returns false and duplicates nothing, against the claim and the comment of line 291.

  The missing out-of-memory check.  \<^verbatim>\<open>alloc_page\<close> compares the result of
  \<^verbatim>\<open>find_smallest_pfn\<close> with \<open>NR_PAGEFRAMES\<close> (lines 154-156); the duplication branch does
  not.  Process 0 allocates the pages 0 to 3 with read-write access and forks process 1:
  every frame has count 2, and the write fault on page 0 binds no free frame but indexes
  \<^verbatim>\<open>mapcounts\<close> at \<open>NR_PAGEFRAMES\<close>.
\<close>

theorem cow_fault_refused_or_out_of_bounds:
  "map_sum id
     (\<lambda>s. map_sum id (\<lambda>(r, s'). (r, lookup_pte small_config (ptbr s') 0))
            (alloc_page small_config 0 3 s))
     (run_ops small_config [Alloc_page 0 1, Free_page 0] (boot_state small_config)) =
     Inr (Inr (0, Some \<lparr>valid = True, writable = True, pfn = 0, pte_private = 1\<rparr>)) \<and>
   map_sum id
     (\<lambda>s. (lookup_pte small_config (ptbr s) 0, mapcounts s,
            map_sum id fst (handle_page_fault small_config 0 3 s)))
     (run_ops small_config [Alloc_page 0 1, Free_page 0, Alloc_page 0 3, Switch_process 1]
        (boot_state small_config)) =
     Inr (Some \<lparr>valid = True, writable = False, pfn = 0, pte_private = 1\<rparr>, [2, 0, 0, 0],
          Inr False) \<and>
   map_sum id
     (\<lambda>s. (lookup_pte small_config (ptbr s) 0, mapcounts s,
            map_sum id fst (handle_page_fault small_config 0 3 s)))
     (run_ops small_config
        [Alloc_page 0 3, Alloc_page 1 3, Alloc_page 2 3, Alloc_page 3 3, Switch_process 1]
        (boot_state small_config)) =
     Inr (Some \<lparr>valid = True, writable = False, pfn = 0, pte_private = 0\<rparr>, [2, 2, 2, 2],
          Inl OutOfBounds)"
  by code_simp

text \<open>
  Claim C10.  In the duplication branch (entry valid, write requested, not writable, tag
  not \<open>RW_READ\<close>, count of the bound frame at least 2): if some frame has count 0 after
  the decrement of the shared frame, the handler succeeds and the new pfn is below
  \<open>NR_PAGEFRAMES\<close>; if none has, the handler indexes \<^verbatim>\<open>mapcounts\<close> outside its extent.  The
  branch has no check of its own, so the precondition is needed.
\<close>

theorem handle_page_fault_cow_in_bounds:
  assumes "wf_config cfg" and "wf_state cfg s"
    and "unat vpn < NR_PTES_PER_PAGE cfg * NR_PTES_PER_PAGE cfg"
    and "lookup_pte cfg (ptbr s) vpn = Some e"
    and "valid e" and "\<not> writable e" and "rw AND RW_WRITE cfg = RW_WRITE cfg"
    and "pte_private e \<noteq> RW_READ cfg"
    and "unat (pfn e) < NR_PAGEFRAMES cfg" and "2 \<le> mapcounts s ! unat (pfn e)"
  shows "if \<exists>f<NR_PAGEFRAMES cfg.
              (mapcounts s)[unat (pfn e) := mapcounts s ! unat (pfn e) - 1] ! f = 0
         then \<exists>s' e'. handle_page_fault cfg vpn rw s = Inr (True, s') \<and>
                lookup_pte cfg (ptbr s') vpn = Some e' \<and> unat (pfn e') < NR_PAGEFRAMES cfg
         else handle_page_fault cfg vpn rw s = Inl OutOfBounds"
proof -
  let ?n = "NR_PTES_PER_PAGE cfg"
  let ?outer = "unat vpn div ?n" and ?inner = "unat vpn mod ?n"
  let ?p = "unat (pfn e)"
  let ?mc = "(mapcounts s)[?p := mapcounts s ! ?p - 1]"
  from assms have n: "0 < ?n" and nr: "NR_PAGEFRAMES cfg < 2 ^ 31"
    and pt: "wf_pagetable cfg (ptbr s)" and mc: "length (mapcounts s) = NR_PAGEFRAMES cfg"
    by (simp_all add: wf_config_def wf_state_def)
  from handle_page_fault_cow_unfold [OF assms(1-10)] obtain dir where
    dir: "ptbr s ! ?outer = Ptr dir" "length dir = ?n"
    and run: "handle_page_fault cfg vpn rw s =
           (case find_smallest_pfn cfg ?mc of
                 Inl err \<Rightarrow> Inl err
               | Inr k \<Rightarrow>
                   if length ?mc \<le> unat (of_nat k :: u32) then Inl OutOfBounds
                   else Inr (True,
                          (set_pte ?outer ?inner dir
                             (e\<lparr>pfn := of_nat k, writable := True\<rparr>) s)
                            \<lparr>mapcounts := ?mc[unat (of_nat k :: u32) :=
                                ?mc ! unat (of_nat k :: u32) + 1]\<rparr>))"
    by (auto simp: Let_def)
  have len: "length ?mc = NR_PAGEFRAMES cfg" using mc by simp
  show ?thesis
  proof (cases "\<exists>f<NR_PAGEFRAMES cfg. ?mc ! f = 0")
    case True
    from find_smallest_pfn_free [OF len True] obtain k where
      k: "find_smallest_pfn cfg ?mc = Inr k" "k < NR_PAGEFRAMES cfg"
      by auto
    from k(2) nr have "k < 2 ^ 32" by simp
    then have uk: "unat (of_nat k :: u32) = k" by (simp add: unat_of_nat)
    let ?s' = "(set_pte ?outer ?inner dir (e\<lparr>pfn := of_nat k, writable := True\<rparr>) s)
               \<lparr>mapcounts := ?mc[k := ?mc ! k + 1]\<rparr>"
    have run': "handle_page_fault cfg vpn rw s = Inr (True, ?s')"
      using run k(1,2) uk mc by simp
    have look: "lookup_pte cfg (ptbr ?s') vpn = Some (e\<lparr>pfn := of_nat k, writable := True\<rparr>)"
      using lookup_pte_update [OF pt n assms(3) dir(2)] by simp
    have "\<exists>s' e'. handle_page_fault cfg vpn rw s = Inr (True, s') \<and>
                lookup_pte cfg (ptbr s') vpn = Some e' \<and> unat (pfn e') < NR_PAGEFRAMES cfg"
      apply (rule exI [of _ ?s'])
      apply (rule exI [of _ "e\<lparr>pfn := of_nat k, writable := True\<rparr>"])
      apply (intro conjI run' look)
      apply (simp add: uk k(2))
      done
    then show ?thesis by (simp only: True if_True)
  next
    case False
    then have "\<forall>f<NR_PAGEFRAMES cfg. ?mc ! f \<noteq> 0" by simp
    from find_smallest_pfn_full [OF len this]
    have full: "find_smallest_pfn cfg ?mc = Inr (NR_PAGEFRAMES cfg)" .
    from nr have "NR_PAGEFRAMES cfg < 2 ^ 32" by simp
    then have "unat (of_nat (NR_PAGEFRAMES cfg) :: u32) = NR_PAGEFRAMES cfg"
      by (simp add: unat_of_nat)
    with run full mc have "handle_page_fault cfg vpn rw s = Inl OutOfBounds" by simp
    then show ?thesis by (simp only: False if_False)
  qed
qed

text \<open>
  Claim C10 at \<open>shared_state\<close> (a frame is free) and at \<open>shared_full_state\<close> (none is).
\<close>

theorem handle_page_fault_cow_in_bounds_witness:
  "wf_config small_config \<and> wf_state small_config shared_state \<and>
   wf_state small_config shared_full_state \<and>
   unat (0 :: u32) < NR_PTES_PER_PAGE small_config * NR_PTES_PER_PAGE small_config \<and>
   lookup_pte small_config (ptbr shared_state) 0 = Some (cow_pte 0) \<and>
   lookup_pte small_config (ptbr shared_full_state) 0 = Some (cow_pte 0) \<and>
   valid (cow_pte 0) \<and> \<not> writable (cow_pte 0) \<and>
   (3 :: u32) AND RW_WRITE small_config = RW_WRITE small_config \<and>
   pte_private (cow_pte 0) \<noteq> RW_READ small_config \<and>
   unat (pfn (cow_pte 0)) < NR_PAGEFRAMES small_config \<and>
   2 \<le> mapcounts shared_state ! unat (pfn (cow_pte 0)) \<and>
   2 \<le> mapcounts shared_full_state ! unat (pfn (cow_pte 0)) \<and>
   (\<exists>s' e'. handle_page_fault small_config 0 3 shared_state = Inr (True, s') \<and>
      lookup_pte small_config (ptbr s') 0 = Some e' \<and>
      unat (pfn e') < NR_PAGEFRAMES small_config) \<and>
   handle_page_fault small_config 0 3 shared_full_state = Inl OutOfBounds"
proof -
  have two: "2 \<le> mapcounts shared_state ! unat (pfn (cow_pte 0))"
    by (simp add: shared_state_def cow_pte_def)
  have two': "2 \<le> mapcounts shared_full_state ! unat (pfn (cow_pte 0))"
    by (simp add: shared_full_state_def cow_pte_def)
  have free: "\<exists>f<NR_PAGEFRAMES small_config.
      (mapcounts shared_state)[unat (pfn (cow_pte 0)) :=
         mapcounts shared_state ! unat (pfn (cow_pte 0)) - 1] ! f = 0"
    by (rule exI [of _ 1]) (simp add: shared_state_def small_config_def cow_pte_def)
  have full: "\<not> (\<exists>f<NR_PAGEFRAMES small_config.
      (mapcounts shared_full_state)[unat (pfn (cow_pte 0)) :=
         mapcounts shared_full_state ! unat (pfn (cow_pte 0)) - 1] ! f = 0)"
    by (subst free_frame_iff) (simp_all add: shared_full_state_def small_config_def cow_pte_def)
  from handle_page_fault_cow_in_bounds
    [OF wf_small_config wf_examples(4) small_vpn_in_range(1) shared_state_entry cow_pte_facts two]
    free
  have a: "\<exists>s' e'. handle_page_fault small_config 0 3 shared_state = Inr (True, s') \<and>
      lookup_pte small_config (ptbr s') 0 = Some e' \<and>
      unat (pfn e') < NR_PAGEFRAMES small_config"
    by (simp only: if_True)
  from handle_page_fault_cow_in_bounds
    [OF wf_small_config wf_examples(6) small_vpn_in_range(1) shared_full_state_entry
      cow_pte_facts two']
    full
  have b: "handle_page_fault small_config 0 3 shared_full_state = Inl OutOfBounds"
    by (simp only: if_False)
  from wf_small_config wf_examples(4,6) small_vpn_in_range(1) shared_state_entry
    shared_full_state_entry cow_pte_facts two two' a b
  show ?thesis by (intro conjI)
qed

subsection \<open>The fork of switch_process\<close>

lemma length_count_mapping [simp]: "length (count_mapping mc e) = length mc"
  by (simp add: count_mapping_def)

lemma length_foldl_count_mapping [simp]: "length (foldl count_mapping mc es) = length mc"
  by (induction es arbitrary: mc) simp_all

lemma take_Suc_update:
  "j < length xs \<Longrightarrow> take (Suc j) (xs[j := x]) = take j xs @ [x]"
  by (simp add: take_Suc_conv_app_nth)

lemma child_directory_Cons [simp]:
  "child_directory (e # es) (c # cs) =
     (if valid e then forked_pte e else c) # child_directory es cs"
  by (simp add: child_directory_def)

lemma child_directory_Nil [simp]: "child_directory [] cs = []"
  by (simp add: child_directory_def)

lemma fork_ptes_closed:
  assumes "length pd = NR_PTES_PER_PAGE cfg" and "length cd = NR_PTES_PER_PAGE cfg"
    and "j \<le> NR_PTES_PER_PAGE cfg"
  shows "fork_ptes cfg j pd cd mc =
     (if list_all (\<lambda>e. \<not> valid e \<or> unat (pfn e) < length mc) (drop j pd)
      then Inr (take j pd @ map cow_protect (drop j pd),
                take j cd @ child_directory (drop j pd) (drop j cd),
                foldl count_mapping mc (drop j pd))
      else Inl OutOfBounds)"
  using assms
proof (induction cfg j pd cd mc rule: fork_ptes.induct)
  case (1 cfg j pd cd mc)
  let ?n = "NR_PTES_PER_PAGE cfg"
  show ?case
  proof (cases "j < ?n")
    case False
    with "1.prems" have "j = length pd" "j = length cd" by simp_all
    with False show ?thesis
      by (subst fork_ptes.simps) simp
  next
    case True
    with "1.prems" have jp: "j < length pd" and jc: "j < length cd" by simp_all
    have dp: "drop j pd = pd ! j # drop (Suc j) pd"
      using jp by (simp add: Cons_nth_drop_Suc)
    have dc: "drop j cd = cd ! j # drop (Suc j) cd"
      using jc by (simp add: Cons_nth_drop_Suc)
    show ?thesis
    proof (cases "valid (pd ! j)")
      case False
      have "fork_ptes cfg (j + 1) pd cd mc =
         (if list_all (\<lambda>e. \<not> valid e \<or> unat (pfn e) < length mc) (drop (j + 1) pd)
          then Inr (take (j + 1) pd @ map cow_protect (drop (j + 1) pd),
                take (j + 1) cd @ child_directory (drop (j + 1) pd) (drop (j + 1) cd),
                foldl count_mapping mc (drop (j + 1) pd))
          else Inl OutOfBounds)"
        using True jp jc False "1.prems" by (intro "1.IH"(2)) simp_all
      moreover have "fork_ptes cfg j pd cd mc = fork_ptes cfg (j + 1) pd cd mc"
        using True jp jc False by (subst fork_ptes.simps) simp
      ultimately show ?thesis
        using False jp jc
        by (simp add: dp dc take_Suc_conv_app_nth cow_protect_def [of "pd ! j"]
            count_mapping_def [of mc "pd ! j"])
    next
      case v: True
      show ?thesis
      proof (cases "unat (pfn (pd ! j)) < length mc")
        case False
        have "fork_ptes cfg j pd cd mc = Inl OutOfBounds"
          using True jp jc v False by (subst fork_ptes.simps) simp
        with v False show ?thesis by (simp add: dp)
      next
        case inr: True
        let ?pd = "pd[j := (pd ! j)\<lparr>writable := False\<rparr>]"
        let ?cd = "cd[j := forked_pte (pd ! j)]"
        let ?mc = "mc[unat (pfn (pd ! j)) := mc ! unat (pfn (pd ! j)) + 1]"
        have "fork_ptes cfg (j + 1) ?pd ?cd ?mc =
         (if list_all (\<lambda>e. \<not> valid e \<or> unat (pfn e) < length ?mc) (drop (j + 1) ?pd)
          then Inr (take (j + 1) ?pd @ map cow_protect (drop (j + 1) ?pd),
                take (j + 1) ?cd @ child_directory (drop (j + 1) ?pd) (drop (j + 1) ?cd),
                foldl count_mapping ?mc (drop (j + 1) ?pd))
          else Inl OutOfBounds)"
          using True jp jc v inr "1.prems" by (intro "1.IH"(1)) simp_all
        moreover have "fork_ptes cfg j pd cd mc = fork_ptes cfg (j + 1) ?pd ?cd ?mc"
          using True jp jc v inr by (subst fork_ptes.simps) simp
        ultimately show ?thesis
          using v inr jp jc
          by (simp add: dp dc take_Suc_update cow_protect_def [of "pd ! j"]
              count_mapping_def [of mc "pd ! j"])
      qed
    qed
  qed
qed

lemma all_ptes_Cons [simp]:
  "all_ptes (d # ds) = (case d of Ptr ptes \<Rightarrow> ptes | _ \<Rightarrow> []) @ all_ptes ds"
  by (simp add: all_ptes_def)

lemma all_ptes_Nil [simp]: "all_ptes [] = []"
  by (simp add: all_ptes_def)

lemma child_table_Cons [simp]:
  "child_table cfg (d # ds) (c # cs) =
     (case d of Ptr pd \<Rightarrow> Ptr (child_directory pd (malloc_directory cfg)) | _ \<Rightarrow> c)
       # child_table cfg ds cs"
  by (simp add: child_table_def)

lemma child_table_Nil [simp]: "child_table cfg [] cs = []"
  by (simp add: child_table_def)

lemma fork_ptes_whole:
  assumes "length pd = NR_PTES_PER_PAGE cfg"
  shows "fork_ptes cfg 0 pd (malloc_directory cfg) mc =
     (if list_all (\<lambda>e. \<not> valid e \<or> unat (pfn e) < length mc) pd
      then Inr (map cow_protect pd, child_directory pd (malloc_directory cfg),
                foldl count_mapping mc pd)
      else Inl OutOfBounds)"
  using fork_ptes_closed [of pd cfg "malloc_directory cfg" 0 mc] assms by simp

lemma fork_dirs_closed:
  assumes "length ppt = NR_PTES_PER_PAGE cfg" and "length cpt = NR_PTES_PER_PAGE cfg"
    and "i \<le> NR_PTES_PER_PAGE cfg"
    and "list_all (\<lambda>d. case d of Null \<Rightarrow> True
                        | Ptr ptes \<Rightarrow> length ptes = NR_PTES_PER_PAGE cfg
                        | Wild \<Rightarrow> False) (drop i ppt)"
  shows "fork_dirs cfg i ppt cpt mc =
     (if list_all (\<lambda>e. \<not> valid e \<or> unat (pfn e) < length mc) (all_ptes (drop i ppt))
      then Inr (take i ppt @ map (map_ptr (map cow_protect)) (drop i ppt),
                take i cpt @ child_table cfg (drop i ppt) (drop i cpt),
                foldl count_mapping mc (all_ptes (drop i ppt)))
      else Inl OutOfBounds)"
  using assms
proof (induction cfg i ppt cpt mc rule: fork_dirs.induct)
  case (1 cfg i ppt cpt mc)
  let ?n = "NR_PTES_PER_PAGE cfg"
  show ?case
  proof (cases "i < ?n")
    case False
    with "1.prems" have "i = length ppt" "i = length cpt" by simp_all
    with False show ?thesis
      by (subst fork_dirs.simps) simp
  next
    case True
    with "1.prems" have ip: "i < length ppt" and ic: "i < length cpt" by simp_all
    have dp: "drop i ppt = ppt ! i # drop (Suc i) ppt"
      using ip by (simp add: Cons_nth_drop_Suc)
    have dc: "drop i cpt = cpt ! i # drop (Suc i) cpt"
      using ic by (simp add: Cons_nth_drop_Suc)
    from "1.prems"(4) have tl: "list_all (\<lambda>d. case d of Null \<Rightarrow> True
                        | Ptr ptes \<Rightarrow> length ptes = ?n | Wild \<Rightarrow> False) (drop (Suc i) ppt)"
      by (simp add: dp)
    show ?thesis
    proof (cases "ppt ! i")
      case Null
      have "fork_dirs cfg (i + 1) ppt cpt mc =
         (if list_all (\<lambda>e. \<not> valid e \<or> unat (pfn e) < length mc) (all_ptes (drop (i + 1) ppt))
          then Inr (take (i + 1) ppt @ map (map_ptr (map cow_protect)) (drop (i + 1) ppt),
                take (i + 1) cpt @ child_table cfg (drop (i + 1) ppt) (drop (i + 1) cpt),
                foldl count_mapping mc (all_ptes (drop (i + 1) ppt)))
          else Inl OutOfBounds)"
        using True ip ic Null "1.prems"(1-3) tl by (intro "1.IH"(1)) simp_all
      moreover have "fork_dirs cfg i ppt cpt mc = fork_dirs cfg (i + 1) ppt cpt mc"
        using True ip ic Null by (subst fork_dirs.simps) simp
      ultimately show ?thesis
        using Null ip ic
        by (simp add: dp dc take_Suc_conv_app_nth)
    next
      case Wild
      with "1.prems"(4) show ?thesis by (simp add: dp)
    next
      case (Ptr pd)
      with "1.prems"(4) have lpd: "length pd = ?n" by (simp add: dp)
      note inner = fork_ptes_whole [OF lpd, of mc]
      show ?thesis
      proof (cases "list_all (\<lambda>e. \<not> valid e \<or> unat (pfn e) < length mc) pd")
        case False
        with inner have "fork_ptes cfg 0 pd (malloc_directory cfg) mc = Inl OutOfBounds"
          by simp
        then have "fork_dirs cfg i ppt cpt mc = Inl OutOfBounds"
          using True ip ic Ptr by (subst fork_dirs.simps) simp
        with False Ptr show ?thesis by (simp add: dp)
      next
        case ok: True
        let ?pd = "map cow_protect pd"
        let ?cd = "child_directory pd (malloc_directory cfg)"
        let ?mc = "foldl count_mapping mc pd"
        let ?ppt = "ppt[i := Ptr ?pd]" and ?cpt = "cpt[i := Ptr ?cd]"
        from inner ok have r: "fork_ptes cfg 0 pd (malloc_directory cfg) mc = Inr (?pd, ?cd, ?mc)"
          by simp
        have "fork_dirs cfg (i + 1) ?ppt ?cpt ?mc =
         (if list_all (\<lambda>e. \<not> valid e \<or> unat (pfn e) < length ?mc) (all_ptes (drop (i + 1) ?ppt))
          then Inr (take (i + 1) ?ppt @ map (map_ptr (map cow_protect)) (drop (i + 1) ?ppt),
                take (i + 1) ?cpt @ child_table cfg (drop (i + 1) ?ppt) (drop (i + 1) ?cpt),
                foldl count_mapping ?mc (all_ptes (drop (i + 1) ?ppt)))
          else Inl OutOfBounds)"
          using True ip ic Ptr "1.prems"(1-3) tl
          by (intro "1.IH"(2) [OF _ _ Ptr r refl refl]) simp_all
        moreover have "fork_dirs cfg i ppt cpt mc = fork_dirs cfg (i + 1) ?ppt ?cpt ?mc"
          using True ip ic Ptr r by (subst fork_dirs.simps) simp
        ultimately show ?thesis
          using Ptr ok ip ic
          by (simp add: dp dc take_Suc_update)
      qed
    qed
  qed
qed

text \<open>A fork that returns has met no wild pointer in the page table of the parent.\<close>

lemma fork_dirs_no_wild:
  assumes "fork_dirs cfg i ppt cpt mc = Inr r"
    and "length ppt = NR_PTES_PER_PAGE cfg" and "i \<le> NR_PTES_PER_PAGE cfg"
  shows "list_all (\<lambda>d. d \<noteq> Wild) (drop i ppt)"
  using assms
proof (induction cfg i ppt cpt mc arbitrary: r rule: fork_dirs.induct)
  case (1 cfg i ppt cpt mc)
  let ?n = "NR_PTES_PER_PAGE cfg"
  show ?case
  proof (cases "i < ?n")
    case False
    with "1.prems" show ?thesis by simp
  next
    case True
    from "1.prems"(1) True have inb: "\<not> (length ppt \<le> i \<or> length cpt \<le> i)"
      by (subst (asm) fork_dirs.simps) (auto split: if_splits)
    with "1.prems" have ip: "i < length ppt" by simp
    have dp: "drop i ppt = ppt ! i # drop (Suc i) ppt"
      using ip by (simp add: Cons_nth_drop_Suc)
    show ?thesis
    proof (cases "ppt ! i")
      case Null
      from "1.prems"(1) True inb Null have "fork_dirs cfg (i + 1) ppt cpt mc = Inr r"
        by (subst (asm) fork_dirs.simps) simp
      from "1.IH"(1) [OF True inb Null this] True "1.prems"(2) Null show ?thesis
        by (simp add: dp)
    next
      case Wild
      with "1.prems"(1) True inb show ?thesis
        by (subst (asm) fork_dirs.simps) simp
    next
      case (Ptr pd)
      from "1.prems"(1) True inb Ptr obtain pd' cd' mc' where
        inner: "fork_ptes cfg 0 pd (malloc_directory cfg) mc = Inr (pd', cd', mc')"
        and rest: "fork_dirs cfg (i + 1) (ppt[i := Ptr pd']) (cpt[i := Ptr cd']) mc' = Inr r"
        by (subst (asm) fork_dirs.simps) (auto split: sum.splits)
      from "1.IH"(2) [OF True inb Ptr inner refl refl rest] True "1.prems"(2) Ptr show ?thesis
        by (simp add: dp)
    qed
  qed
qed

lemma wf_pagetable_iff:
  "wf_pagetable cfg pt \<longleftrightarrow> pagetable_extents cfg pt \<and> list_all (\<lambda>d. d \<noteq> Wild) pt"
  by (auto simp: wf_pagetable_def pagetable_extents_def list_all_length split: ptr.splits)

lemma length_malloc_outer_ptes [simp]:
  "length (malloc_outer_ptes cfg) = NR_PTES_PER_PAGE cfg"
  by (simp add: malloc_outer_ptes_def)

lemma malloc_outer_ptes_no_directory:
  "a < NR_PTES_PER_PAGE cfg \<Longrightarrow> malloc_outer_ptes cfg ! a \<noteq> Ptr d"
  by (simp add: malloc_outer_ptes_def)

lemma nth_child_table:
  "a < length ppt \<Longrightarrow> a < length cpt \<Longrightarrow>
   child_table cfg ppt cpt ! a =
     (case ppt ! a of Ptr pd \<Rightarrow> Ptr (child_directory pd (malloc_directory cfg)) | _ \<Rightarrow> cpt ! a)"
  by (simp add: child_table_def)

lemma length_child_table [simp]:
  "length (child_table cfg ppt cpt) = min (length ppt) (length cpt)"
  by (simp add: child_table_def)

lemma ptbr_memset_tlb [simp]:
  "ptbr (memset_tlb s) = ptbr s" "processes (memset_tlb s) = processes s"
  "mapcounts (memset_tlb s) = mapcounts s" "current (memset_tlb s) = current s"
  "tlbSize (memset_tlb s) = tlbSize s"
  "tlb (memset_tlb s) = replicate (length (tlb s)) zero_tlb_entry"
  by (simp_all add: memset_tlb_def ptbr_def)

lemma switch_process_fork_closed:
  assumes "wf_pagetable cfg (ptbr s)" and "find_pid (processes s) p = None"
  shows "switch_process cfg p s =
     (if list_all (\<lambda>e. \<not> valid e \<or> unat (pfn e) < length (mapcounts s)) (all_ptes (ptbr s))
      then Inr ((memset_tlb s)
                 \<lparr>mapcounts := foldl count_mapping (mapcounts s) (all_ptes (ptbr s)),
                  current := \<lparr>pid = p, pagetable =
                     child_table cfg (ptbr s) (malloc_outer_ptes cfg)\<rparr>,
                  processes := processes s @
                     [(current s)\<lparr>pagetable := map (map_ptr (map cow_protect)) (ptbr s)\<rparr>]\<rparr>)
      else Inl OutOfBounds)"
proof -
  from assms(1) have len: "length (ptbr s) = NR_PTES_PER_PAGE cfg"
    and dirs: "list_all (\<lambda>d. case d of Null \<Rightarrow> True
                        | Ptr ptes \<Rightarrow> length ptes = NR_PTES_PER_PAGE cfg
                        | Wild \<Rightarrow> False) (drop 0 (ptbr s))"
    by (simp_all add: wf_pagetable_def)
  have "fork_dirs cfg 0 (ptbr s) (malloc_outer_ptes cfg) (mapcounts s) =
     (if list_all (\<lambda>e. \<not> valid e \<or> unat (pfn e) < length (mapcounts s)) (all_ptes (ptbr s))
      then Inr (map (map_ptr (map cow_protect)) (ptbr s),
                child_table cfg (ptbr s) (malloc_outer_ptes cfg),
                foldl count_mapping (mapcounts s) (all_ptes (ptbr s)))
      else Inl OutOfBounds)"
    using fork_dirs_closed [OF len _ _ dirs, of "malloc_outer_ptes cfg" "mapcounts s"]
    by simp
  with assms(2) show ?thesis
    by (simp add: switch_process_def Let_def)
qed

lemma pte_at_map_protect:
  "pte_at (map (map_ptr (map cow_protect)) pt) a b = map_option cow_protect (pte_at pt a b)"
  by (cases "a < length pt"; cases "pt ! a") (auto simp: pte_at_def)

lemma nth_child_directory:
  "b < length pd \<Longrightarrow> b < length cd \<Longrightarrow>
   child_directory pd cd ! b = (if valid (pd ! b) then forked_pte (pd ! b) else cd ! b)"
  by (simp add: child_directory_def)

lemma length_child_directory [simp]:
  "length (child_directory pd cd) = min (length pd) (length cd)"
  by (simp add: child_directory_def)

lemma pte_at_child:
  assumes "pagetable_extents cfg pt"
  shows "pte_at (child_table cfg pt (malloc_outer_ptes cfg)) a b =
     map_option (\<lambda>e. if valid e then forked_pte e else malloc_pte cfg b) (pte_at pt a b)"
proof (cases "a < length pt")
  case False
  with assms show ?thesis by (simp add: pte_at_def pagetable_extents_def)
next
  case True
  with assms have a: "a < NR_PTES_PER_PAGE cfg" and len: "length pt = NR_PTES_PER_PAGE cfg"
    by (simp_all add: pagetable_extents_def)
  note nth = nth_child_table [of a pt "malloc_outer_ptes cfg" cfg]
  show ?thesis
  proof (cases "pt ! a")
    case Null
    with True a len nth malloc_outer_ptes_no_directory [OF a] show ?thesis
      by (auto simp: pte_at_def split: ptr.splits)
  next
    case Wild
    with True a len nth malloc_outer_ptes_no_directory [OF a] show ?thesis
      by (auto simp: pte_at_def split: ptr.splits)
  next
    case (Ptr pd)
    from assms True Ptr have "length pd = NR_PTES_PER_PAGE cfg"
      by (auto simp: pagetable_extents_def list_all_length split: ptr.splits)
    with True a len nth Ptr show ?thesis
      by (simp add: pte_at_def nth_child_directory malloc_directory_def)
  qed
qed

lemma forked_pte_valid: "valid e \<Longrightarrow> forked_pte e = e\<lparr>writable := False\<rparr>"
  by (cases e) (simp add: forked_pte_def Let_def)

lemma forked_pte_fields [simp]:
  "valid (forked_pte e)" "\<not> writable (forked_pte e)" "pfn (forked_pte e) = pfn e"
  "pte_private (forked_pte e) = pte_private e"
  by (simp_all add: forked_pte_def Let_def)

lemma nth_foldl_count_mapping:
  "f < length mc \<Longrightarrow>
   foldl count_mapping mc es ! f =
     mc ! f + of_nat (length (filter (\<lambda>e. valid e \<and> unat (pfn e) = f) es))"
proof (induction es arbitrary: mc)
  case Nil
  then show ?case by simp
next
  case (Cons e es)
  from Cons.prems have "f < length (count_mapping mc e)" by simp
  from Cons.IH [OF this] Cons.prems show ?case
    by (auto simp: count_mapping_def nth_list_update)
qed

text \<open>
  Claim C6.  When no process of the ready list has the requested pid, \<^verbatim>\<open>switch_process\<close>
  forks: the child runs, the parent is appended to the ready list, and for every valid
  entry \<open>e\<close> of the parent the entry at the same place of the child and of the parent is
  \<open>e\<close> with \<open>writable\<close> cleared (same pfn, same tag).  The count of every frame grows by the
  number of valid entries of the parent that are bound to it: by one for every such entry.
\<close>

theorem switch_process_fork_shares_pages:
  assumes "wf_config cfg" and "wf_state cfg s"
    and "find_pid (processes s) p = None" and "pfns_in_range cfg (ptbr s)"
  shows "\<exists>s' parent. switch_process cfg p s = Inr s' \<and>
           pid (current s') = p \<and> processes s' = processes s @ [parent] \<and>
           pid parent = pid (current s) \<and>
           (\<forall>i j e. pte_at (ptbr s) i j = Some e \<and> valid e \<longrightarrow>
              pte_at (ptbr s') i j = Some (e\<lparr>writable := False\<rparr>) \<and>
              pte_at (pagetable parent) i j = Some (e\<lparr>writable := False\<rparr>)) \<and>
           (\<forall>f<NR_PAGEFRAMES cfg.
              mapcounts s' ! f = mapcounts s ! f + of_nat (mappings_of (ptbr s) f))"
proof -
  from assms(2) have pt: "wf_pagetable cfg (ptbr s)"
    and mc: "length (mapcounts s) = NR_PAGEFRAMES cfg"
    by (simp_all add: wf_state_def)
  let ?child = "child_table cfg (ptbr s) (malloc_outer_ptes cfg)"
  let ?parent = "(current s)\<lparr>pagetable := map (map_ptr (map cow_protect)) (ptbr s)\<rparr>"
  let ?s' = "(memset_tlb s)
                 \<lparr>mapcounts := foldl count_mapping (mapcounts s) (all_ptes (ptbr s)),
                  current := \<lparr>pid = p, pagetable = ?child\<rparr>,
                  processes := processes s @ [?parent]\<rparr>"
  have run: "switch_process cfg p s = Inr ?s'"
    using switch_process_fork_closed [OF pt assms(3)] assms(4) mc
    by (simp add: pfns_in_range_def)
  have ps: "ptbr ?s' = ?child"
    by (simp add: ptbr_def)
  have entries: "\<forall>i j e. pte_at (ptbr s) i j = Some e \<and> valid e \<longrightarrow>
              pte_at (ptbr ?s') i j = Some (e\<lparr>writable := False\<rparr>) \<and>
              pte_at (pagetable ?parent) i j = Some (e\<lparr>writable := False\<rparr>)"
    unfolding ps
    by (simp add: pte_at_child [OF wf_pagetable_extents [OF pt]] pte_at_map_protect
        forked_pte_valid cow_protect_def)
  have counts: "\<forall>f<NR_PAGEFRAMES cfg.
              mapcounts ?s' ! f = mapcounts s ! f + of_nat (mappings_of (ptbr s) f)"
    using mc by (simp add: nth_foldl_count_mapping mappings_of_def)
  show ?thesis
    apply (rule exI [of _ ?s'])
    apply (rule exI [of _ ?parent])
    apply (intro conjI run entries counts)
    apply simp_all
    done
qed

text \<open>
  Claim C6 at \<open>one_page_state\<close>, for a fork to pid 1.
\<close>

theorem switch_process_fork_shares_pages_witness:
  "wf_config small_config \<and> wf_state small_config one_page_state \<and>
   find_pid (processes one_page_state) 1 = None \<and>
   pfns_in_range small_config (ptbr one_page_state) \<and>
   (\<exists>s' parent. switch_process small_config 1 one_page_state = Inr s' \<and>
           pid (current s') = 1 \<and> processes s' = processes one_page_state @ [parent] \<and>
           pid parent = pid (current one_page_state) \<and>
           (\<forall>i j e. pte_at (ptbr one_page_state) i j = Some e \<and> valid e \<longrightarrow>
              pte_at (ptbr s') i j = Some (e\<lparr>writable := False\<rparr>) \<and>
              pte_at (pagetable parent) i j = Some (e\<lparr>writable := False\<rparr>)) \<and>
           (\<forall>f<NR_PAGEFRAMES small_config.
              mapcounts s' ! f =
              mapcounts one_page_state ! f + of_nat (mappings_of (ptbr one_page_state) f)))"
proof -
  have nf: "find_pid (processes one_page_state) 1 = None"
    by (simp add: one_page_state_def)
  have inr: "pfns_in_range small_config (ptbr one_page_state)"
    by code_simp
  from switch_process_fork_shares_pages [OF wf_small_config wf_examples(3) nf inr]
    wf_small_config wf_examples(3) nf inr
  show ?thesis by (intro conjI)
qed

text \<open>
  The slots of the page table of the child for which the parent has no directory are
  never assigned (line 318).  With a \<^verbatim>\<open>malloc\<close> that returns NULL-filled memory a fault of
  the child on page 5 finds no directory and returns false; with one that does not, the
  handler passes the test of line 227 and follows a wild pointer.
\<close>

lemma fork_leaves_slots_unassigned:
  "map_sum id (\<lambda>s. (ptbr s, map_sum id fst (handle_page_fault small_config 5 3 s)))
     (run_ops small_config [Alloc_page 0 3, Switch_process 1] (boot_state small_config)) =
     Inr ([Ptr [cow_pte 0, zero_pte, zero_pte, zero_pte], Null, Null, Null], Inr False) \<and>
   map_sum id (\<lambda>s. (ptbr s, map_sum id fst (handle_page_fault wild_config 5 3 s)))
     (run_ops wild_config [Alloc_page 0 3, Switch_process 1] (boot_state wild_config)) =
     Inr ([Ptr [cow_pte 0, zero_pte, zero_pte, zero_pte], Wild, Wild, Wild], Inl WildPointer)"
  by code_simp

subsection \<open>The TLB across switch_process and free_page\<close>

text \<open>
  \<^verbatim>\<open>switch_process\<close> zeroes the slots of the TLB and keeps \<^verbatim>\<open>tlbSize\<close>; a zeroed slot holds
  the virtual page number 0, so that in any configuration the lookup of page 0 hits after
  a switch that was made with a translation in the TLB.
\<close>

lemma switch_process_tlb:
  assumes "switch_process cfg p s = Inr s'"
  shows "tlb s' = replicate (length (tlb s)) zero_tlb_entry \<and> tlbSize s' = tlbSize s"
proof (cases "find_pid (processes s) p")
  case (Some k)
  with assms show ?thesis
    by (auto simp: switch_process_def Let_def memset_tlb_def)
next
  case None
  with assms show ?thesis
    by (auto simp: switch_process_def Let_def memset_tlb_def split: sum.splits)
qed

lemma lookup_tlb_zero_after_switch:
  assumes "switch_process cfg p s = Inr s'" and "0 < tlbSize s" and "0 < length (tlb s)"
  shows "lookup_tlb 0 s' = Inr (Some 0)"
proof -
  from switch_process_tlb [OF assms(1)]
  have "tlb s' = replicate (length (tlb s)) zero_tlb_entry" "tlbSize s' = tlbSize s"
    by simp_all
  with assms(2,3) show ?thesis
    by (simp add: lookup_tlb_def lookup_tlb_loop.simps [of _ _ _ 0] zero_tlb_entry_def)
qed

text \<open>
  Claim C3 fails on the code.  Process 0 maps page 0 to frame 0 and forks process 1,
  whose write fault rebinds its page 0 to frame 1.  Process 0 runs again and inserts the
  translation of page 0 to frame 0 into the TLB.  After the switch to process 1 the slots
  of the TLB are zeroed but \<^verbatim>\<open>tlbSize\<close> is still 1, and \<^verbatim>\<open>lookup_tlb\<close> does not test the
  valid bit: the lookup of page 0 in process 1 hits and returns frame 0, while the page
  table of process 1 binds page 0 to frame 1.
\<close>

theorem tlb_hit_after_switch:
  "map_sum id (\<lambda>s. (pid (current s), map_option pfn (lookup_pte small_config (ptbr s) 0),
                      tlbSize s, lookup_tlb 0 s))
     (run_ops small_config
        [Alloc_page 0 3, Switch_process 1, Handle_page_fault 0 3, Switch_process 0,
         Insert_tlb 0 0, Switch_process 1]
        (boot_state small_config)) =
     Inr (1, Some 1, 1, Inr (Some 0))"
  by code_simp

text \<open>
  Claim C7 fails on the code.  With the translations of pages 1 and 2 in the TLB,
  \<^verbatim>\<open>free_page\<close> of page 1 clears the valid bit of slot 0 and decrements \<^verbatim>\<open>tlbSize\<close>: the
  lookup of page 1 still hits (frame 0), and the lookup of page 2 misses.
\<close>

theorem free_page_evicts_wrong_tlb_entry:
  "map_sum id (\<lambda>s. (tlbSize s, lookup_tlb 1 s, lookup_tlb 2 s))
     (run_ops small_config
        [Alloc_page 1 3, Alloc_page 2 3, Insert_tlb 1 0, Insert_tlb 2 1, Free_page 1]
        (boot_state small_config)) =
     Inr (1, Inr (Some 0), Inr None)"
  by code_simp

subsection \<open>Pages of read-only origin\<close>

lemma pagetable_extents_update:
  assumes "pagetable_extents cfg pt" and "length dir = NR_PTES_PER_PAGE cfg"
  shows "pagetable_extents cfg (pt[outer := Ptr (dir[inner := e])])"
proof (cases "outer < length pt")
  case True
  with assms show ?thesis
    by (auto simp: pagetable_extents_def list_all_length nth_list_update split: ptr.splits)
next
  case False
  with assms(1) show ?thesis by (simp add: list_update_beyond)
qed

lemma pagetable_extents_slot:
  assumes "pagetable_extents cfg pt" and "outer < length pt"
  shows "length (case pt ! outer of Ptr d \<Rightarrow> d | _ \<Rightarrow> malloc_directory cfg) =
           NR_PTES_PER_PAGE cfg"
  using assms by (auto simp: pagetable_extents_def list_all_length split: ptr.splits)

lemma lookup_pte_update_same:
  assumes "unat vpn div NR_PTES_PER_PAGE cfg < length pt"
    and "unat vpn mod NR_PTES_PER_PAGE cfg < length dir"
  shows "lookup_pte cfg (pt[unat vpn div NR_PTES_PER_PAGE cfg :=
            Ptr (dir[unat vpn mod NR_PTES_PER_PAGE cfg := e])]) vpn = Some e"
  using assms by (simp add: lookup_pte_def pte_at_def)

lemma lookup_pte_slot:
  assumes "lookup_pte cfg pt vpn = Some e"
  shows "(case pt ! (unat vpn div NR_PTES_PER_PAGE cfg) of Ptr d \<Rightarrow> d | _ \<Rightarrow> fresh) !
           (unat vpn mod NR_PTES_PER_PAGE cfg) = e"
  using assms by (auto simp: lookup_pte_def pte_at_def split: if_splits ptr.splits)

lemma lookup_pte_update_other:
  assumes "v \<noteq> vpn" and "lookup_pte cfg pt v = Some e"
    and "dir = (case pt ! (unat vpn div NR_PTES_PER_PAGE cfg) of
                  Ptr d \<Rightarrow> d | _ \<Rightarrow> fresh)"
  shows "lookup_pte cfg (pt[unat vpn div NR_PTES_PER_PAGE cfg :=
            Ptr (dir[unat vpn mod NR_PTES_PER_PAGE cfg := x])]) v = Some e"
proof (cases "unat v div NR_PTES_PER_PAGE cfg = unat vpn div NR_PTES_PER_PAGE cfg")
  case False
  with assms(2) show ?thesis
    by (simp add: lookup_pte_def pte_at_def split: if_splits)
next
  case True
  with assms(1) have ne: "unat v mod NR_PTES_PER_PAGE cfg \<noteq> unat vpn mod NR_PTES_PER_PAGE cfg"
    using div_mod_eq_imp_eq [of "unat v" "NR_PTES_PER_PAGE cfg" "unat vpn"]
    by (auto simp: word_unat_eq_iff)
  from assms(2) True obtain d where
    d: "unat vpn div NR_PTES_PER_PAGE cfg < length pt"
       "pt ! (unat vpn div NR_PTES_PER_PAGE cfg) = Ptr d"
       "unat v mod NR_PTES_PER_PAGE cfg < length d"
       "d ! (unat v mod NR_PTES_PER_PAGE cfg) = e"
    by (auto simp: lookup_pte_def pte_at_def split: if_splits ptr.splits)
  with assms(3) True ne show ?thesis
    by (simp add: lookup_pte_def pte_at_def)
qed

text \<open>
  Writing the entry of one page keeps the invariant of a process, when the tracked sets
  grow by that page at most and the new entry is as the sets say.
\<close>

lemma tracked_inv_update:
  assumes "tracked_inv cfg pt t"
    and "unat vpn div NR_PTES_PER_PAGE cfg < length pt"
    and "dir = (case pt ! (unat vpn div NR_PTES_PER_PAGE cfg) of
                  Ptr d \<Rightarrow> d | _ \<Rightarrow> malloc_directory cfg)"
    and "fst t' \<subseteq> insert vpn (fst t)" and "snd t' \<subseteq> insert vpn (snd t)"
    and "vpn \<in> fst t' \<Longrightarrow> valid e \<and> pte_private e = RW_READ cfg"
    and "vpn \<in> snd t' \<Longrightarrow> valid e \<and> \<not> writable e \<and> pte_private e = RW_READ cfg"
  shows "tracked_inv cfg (pt[unat vpn div NR_PTES_PER_PAGE cfg :=
            Ptr (dir[unat vpn mod NR_PTES_PER_PAGE cfg := e])]) t'"
proof -
  let ?outer = "unat vpn div NR_PTES_PER_PAGE cfg" and ?inner = "unat vpn mod NR_PTES_PER_PAGE cfg"
  let ?pt' = "pt[?outer := Ptr (dir[?inner := e])]"
  from assms(1) have ext: "pagetable_extents cfg pt"
    and tg: "\<forall>v\<in>fst t. ro_tagged cfg pt v" and ro: "\<forall>v\<in>snd t. ro_entry cfg pt v"
    by (simp_all add: tracked_inv_def)
  from pagetable_extents_slot [OF ext assms(2)] assms(3)
  have len: "length dir = NR_PTES_PER_PAGE cfg" by simp
  from ext assms(2) have "0 < NR_PTES_PER_PAGE cfg" by (auto simp: pagetable_extents_def)
  with len have inner: "?inner < length dir" by simp
  have same: "lookup_pte cfg ?pt' vpn = Some e"
    by (rule lookup_pte_update_same [OF assms(2) inner])
  have ext': "pagetable_extents cfg ?pt'"
    by (rule pagetable_extents_update [OF ext len])
  have tg': "ro_tagged cfg ?pt' v" if v: "v \<in> fst t'" for v
  proof (cases "v = vpn")
    case True
    with v assms(6) same show ?thesis by (simp add: ro_tagged_def)
  next
    case False
    with v assms(4) tg have "ro_tagged cfg pt v" by auto
    then obtain e0 where e0: "lookup_pte cfg pt v = Some e0"
      "valid e0 \<and> pte_private e0 = RW_READ cfg"
      by (auto simp: ro_tagged_def split: option.splits)
    from lookup_pte_update_other [OF False e0(1) assms(3)] e0(2) show ?thesis
      by (simp add: ro_tagged_def)
  qed
  have ro': "ro_entry cfg ?pt' v" if v: "v \<in> snd t'" for v
  proof (cases "v = vpn")
    case True
    with v assms(7) same show ?thesis by (simp add: ro_entry_def)
  next
    case False
    with v assms(5) ro have "ro_entry cfg pt v" by auto
    then obtain e0 where e0: "lookup_pte cfg pt v = Some e0"
      "valid e0 \<and> \<not> writable e0 \<and> pte_private e0 = RW_READ cfg"
      by (auto simp: ro_entry_def split: option.splits)
    from lookup_pte_update_other [OF False e0(1) assms(3)] e0(2) show ?thesis
      by (simp add: ro_entry_def)
  qed
  from ext' tg' ro' show ?thesis by (simp add: tracked_inv_def)
qed

text \<open>What each operation does to the page table of the running process.\<close>

lemma alloc_page_ptbr:
  assumes "alloc_page cfg vpn rw s = Inr (r, s')"
  shows "\<exists>e. ptbr s' = (ptbr s)[unat vpn div NR_PTES_PER_PAGE cfg :=
             Ptr ((case ptbr s ! (unat vpn div NR_PTES_PER_PAGE cfg) of
                      Ptr d \<Rightarrow> d | _ \<Rightarrow> malloc_directory cfg)
                   [unat vpn mod NR_PTES_PER_PAGE cfg := e])] \<and>
           unat vpn div NR_PTES_PER_PAGE cfg < length (ptbr s) \<and>
           processes s' = processes s \<and> valid e \<and>
           writable e = writable (alloc_perm cfg rw
             ((case ptbr s ! (unat vpn div NR_PTES_PER_PAGE cfg) of
                 Ptr d \<Rightarrow> d | _ \<Rightarrow> malloc_directory cfg) !
              (unat vpn mod NR_PTES_PER_PAGE cfg))) \<and>
           pte_private e = pte_private (alloc_perm cfg rw
             ((case ptbr s ! (unat vpn div NR_PTES_PER_PAGE cfg) of
                 Ptr d \<Rightarrow> d | _ \<Rightarrow> malloc_directory cfg) !
              (unat vpn mod NR_PTES_PER_PAGE cfg)))"
  using assms
  by (auto simp: alloc_page_def Let_def alloc_perm_def split: if_splits sum.splits)

lemma free_page_ptbr:
  "free_page cfg vpn s = Inr s' \<Longrightarrow>
   \<exists>dir e. ptbr s ! (unat vpn div NR_PTES_PER_PAGE cfg) = Ptr dir \<and>
      unat vpn div NR_PTES_PER_PAGE cfg < length (ptbr s) \<and>
      ptbr s' = (ptbr s)[unat vpn div NR_PTES_PER_PAGE cfg :=
             Ptr (dir[unat vpn mod NR_PTES_PER_PAGE cfg := e])] \<and>
      processes s' = processes s"
  by (auto simp: free_page_def Let_def split: if_splits sum.splits ptr.splits)

lemma handle_page_fault_ptbr:
  assumes "handle_page_fault cfg vpn rw s = Inr (b, s')"
  shows "s' = s \<or>
     (\<exists>dir e. ptbr s ! (unat vpn div NR_PTES_PER_PAGE cfg) = Ptr dir \<and>
        unat vpn div NR_PTES_PER_PAGE cfg < length (ptbr s) \<and>
        unat vpn mod NR_PTES_PER_PAGE cfg < length dir \<and>
        pte_private (dir ! (unat vpn mod NR_PTES_PER_PAGE cfg)) \<noteq> RW_READ cfg \<and>
        ptbr s' = (ptbr s)[unat vpn div NR_PTES_PER_PAGE cfg :=
             Ptr (dir[unat vpn mod NR_PTES_PER_PAGE cfg := e])] \<and>
        processes s' = processes s)"
  using assms
  by (auto simp: handle_page_fault_def Let_def split: if_splits sum.splits ptr.splits)

lemma find_pid_Some_less: "find_pid ps p = Some k \<Longrightarrow> k < length ps"
  by (induction ps arbitrary: k) (auto split: if_splits)

lemma pagetable_extents_protect:
  assumes "pagetable_extents cfg pt"
  shows "pagetable_extents cfg (map (map_ptr (map cow_protect)) pt)"
proof -
  have "(case map_ptr (map cow_protect) d of
           Ptr ptes \<Rightarrow> length ptes = NR_PTES_PER_PAGE cfg | _ \<Rightarrow> True) =
        (case d of Ptr ptes \<Rightarrow> length ptes = NR_PTES_PER_PAGE cfg | _ \<Rightarrow> True)" for d
    by (cases d) simp_all
  with assms show ?thesis
    by (simp add: pagetable_extents_def list_all_length)
qed

lemma pagetable_extents_child:
  assumes "pagetable_extents cfg pt"
  shows "pagetable_extents cfg (child_table cfg pt (malloc_outer_ptes cfg))"
proof -
  from assms have len: "length pt = NR_PTES_PER_PAGE cfg"
    by (simp add: pagetable_extents_def)
  have "case child_table cfg pt (malloc_outer_ptes cfg) ! a of
          Ptr ptes \<Rightarrow> length ptes = NR_PTES_PER_PAGE cfg | _ \<Rightarrow> True"
    if a: "a < NR_PTES_PER_PAGE cfg" for a
  proof (cases "pt ! a")
    case (Ptr pd)
    from assms a len Ptr have "length pd = NR_PTES_PER_PAGE cfg"
      by (auto simp: pagetable_extents_def list_all_length split: ptr.splits)
    with a len Ptr show ?thesis by (simp add: nth_child_table)
  next
    case Null
    with a len malloc_outer_ptes_no_directory [OF a] show ?thesis
      by (auto simp: nth_child_table split: ptr.splits)
  next
    case Wild
    with a len malloc_outer_ptes_no_directory [OF a] show ?thesis
      by (auto simp: nth_child_table split: ptr.splits)
  qed
  with len show ?thesis
    by (simp add: pagetable_extents_def list_all_length)
qed

lemma tracked_inv_protect:
  assumes "tracked_inv cfg pt t"
  shows "tracked_inv cfg (map (map_ptr (map cow_protect)) pt) t"
proof -
  have "ro_tagged cfg (map (map_ptr (map cow_protect)) pt) v" if "ro_tagged cfg pt v" for v
    using that
    by (auto simp: ro_tagged_def lookup_pte_def pte_at_map_protect cow_protect_def
        split: option.splits)
  moreover
  have "ro_entry cfg (map (map_ptr (map cow_protect)) pt) v" if "ro_entry cfg pt v" for v
    using that
    by (auto simp: ro_entry_def lookup_pte_def pte_at_map_protect cow_protect_def
        split: option.splits)
  ultimately show ?thesis
    using assms pagetable_extents_protect [of cfg pt] by (simp add: tracked_inv_def)
qed

lemma tracked_inv_child:
  assumes "tracked_inv cfg pt t"
  shows "tracked_inv cfg (child_table cfg pt (malloc_outer_ptes cfg)) t"
proof -
  from assms have ext: "pagetable_extents cfg pt" by (simp add: tracked_inv_def)
  have "ro_tagged cfg (child_table cfg pt (malloc_outer_ptes cfg)) v"
    if "ro_tagged cfg pt v" for v
    using that
    by (auto simp: ro_tagged_def lookup_pte_def pte_at_child [OF ext] split: option.splits)
  moreover
  have "ro_entry cfg (child_table cfg pt (malloc_outer_ptes cfg)) v"
    if "ro_entry cfg pt v" for v
    using that
    by (auto simp: ro_entry_def lookup_pte_def pte_at_child [OF ext] split: option.splits)
  ultimately show ?thesis
    using assms pagetable_extents_child [OF ext] by (simp add: tracked_inv_def)
qed

text \<open>Each operation keeps the invariant of a run.\<close>

lemma ro_inv_alloc_page:
  assumes "ro_inv cfg s g" and "alloc_page cfg vpn rw s = Inr (r, s')"
  shows "ro_inv cfg s' (ro_step cfg (Alloc_page vpn rw) s g)"
proof -
  let ?outer = "unat vpn div NR_PTES_PER_PAGE cfg" and ?inner = "unat vpn mod NR_PTES_PER_PAGE cfg"
  let ?dir = "case ptbr s ! ?outer of Ptr d \<Rightarrow> d | _ \<Rightarrow> malloc_directory cfg"
  let ?t = "fst g" and ?t' = "ro_alloc cfg vpn rw (fst g)"
  from assms(1) have cur: "tracked_inv cfg (ptbr s) ?t"
    and rest: "list_all2 (\<lambda>p t. tracked_inv cfg (pagetable p) t) (processes s) (snd g)"
    by (simp_all add: ro_inv_def)
  from alloc_page_ptbr [OF assms(2)] obtain e where
    e: "ptbr s' = (ptbr s)[?outer := Ptr (?dir[?inner := e])]"
       "?outer < length (ptbr s)" "processes s' = processes s" "valid e"
       "writable e = writable (alloc_perm cfg rw (?dir ! ?inner))"
       "pte_private e = pte_private (alloc_perm cfg rw (?dir ! ?inner))"
    by blast
  have sub: "fst ?t' \<subseteq> insert vpn (fst ?t)" "snd ?t' \<subseteq> insert vpn (snd ?t)"
    by (auto simp: ro_alloc_def)
  have tg: "valid e \<and> pte_private e = RW_READ cfg" if v: "vpn \<in> fst ?t'"
  proof (cases "rw = RW_READ cfg")
    case True
    with e(4,6) show ?thesis by (simp add: alloc_perm_def)
  next
    case False
    with v have "vpn \<in> fst ?t" by (auto simp: ro_alloc_def split: if_splits)
    with cur have "ro_tagged cfg (ptbr s) vpn" by (simp add: tracked_inv_def)
    then obtain e0 where e0: "lookup_pte cfg (ptbr s) vpn = Some e0"
      "pte_private e0 = RW_READ cfg"
      by (auto simp: ro_tagged_def split: option.splits)
    from lookup_pte_slot [OF e0(1), of "malloc_directory cfg"] have "?dir ! ?inner = e0" .
    with False e(4,6) e0(2) show ?thesis by (simp add: alloc_perm_def)
  qed
  have ro: "valid e \<and> \<not> writable e \<and> pte_private e = RW_READ cfg" if v: "vpn \<in> snd ?t'"
  proof (cases "rw = RW_READ cfg")
    case True
    with e(4-6) show ?thesis by (simp add: alloc_perm_def)
  next
    case False
    with v have other: "rw \<noteq> (RW_WRITE cfg OR RW_READ cfg)" and "vpn \<in> snd ?t"
      by (auto simp: ro_alloc_def split: if_splits)
    with cur have "ro_entry cfg (ptbr s) vpn" by (simp add: tracked_inv_def)
    then obtain e0 where e0: "lookup_pte cfg (ptbr s) vpn = Some e0"
      "\<not> writable e0" "pte_private e0 = RW_READ cfg"
      by (auto simp: ro_entry_def split: option.splits)
    from lookup_pte_slot [OF e0(1), of "malloc_directory cfg"] have "?dir ! ?inner = e0" .
    with False other e(4-6) e0(2,3) show ?thesis by (simp add: alloc_perm_def)
  qed
  have "tracked_inv cfg (ptbr s') ?t'"
    unfolding e(1) by (rule tracked_inv_update [OF cur e(2) refl sub tg ro])
  with rest e(3) show ?thesis
    by (simp add: ro_inv_def ro_step_def)
qed

lemma ro_inv_free_page:
  assumes "ro_inv cfg s g" and "free_page cfg vpn s = Inr s'"
  shows "ro_inv cfg s' (ro_step cfg (Free_page vpn) s g)"
proof -
  let ?outer = "unat vpn div NR_PTES_PER_PAGE cfg" and ?inner = "unat vpn mod NR_PTES_PER_PAGE cfg"
  let ?t' = "(fst (fst g) - {vpn}, snd (fst g) - {vpn})"
  from assms(1) have cur: "tracked_inv cfg (ptbr s) (fst g)"
    and rest: "list_all2 (\<lambda>p t. tracked_inv cfg (pagetable p) t) (processes s) (snd g)"
    by (simp_all add: ro_inv_def)
  from free_page_ptbr [OF assms(2)] obtain dir e where
    e: "ptbr s ! ?outer = Ptr dir" "?outer < length (ptbr s)"
       "ptbr s' = (ptbr s)[?outer := Ptr (dir[?inner := e])]" "processes s' = processes s"
    by blast
  from e(1) have dir: "dir = (case ptbr s ! ?outer of Ptr d \<Rightarrow> d | _ \<Rightarrow> malloc_directory cfg)"
    by simp
  have "tracked_inv cfg (ptbr s') ?t'"
    unfolding e(3) by (rule tracked_inv_update [OF cur e(2) dir]) auto
  with rest e(4) show ?thesis
    by (simp add: ro_inv_def ro_step_def)
qed

lemma ro_inv_handle_page_fault:
  assumes "ro_inv cfg s g" and "handle_page_fault cfg vpn rw s = Inr (b, s')"
  shows "ro_inv cfg s' g"
proof -
  let ?outer = "unat vpn div NR_PTES_PER_PAGE cfg" and ?inner = "unat vpn mod NR_PTES_PER_PAGE cfg"
  from assms(1) have cur: "tracked_inv cfg (ptbr s) (fst g)"
    and rest: "list_all2 (\<lambda>p t. tracked_inv cfg (pagetable p) t) (processes s) (snd g)"
    by (simp_all add: ro_inv_def)
  from handle_page_fault_ptbr [OF assms(2)] show ?thesis
  proof
    assume "s' = s"
    with assms(1) show ?thesis by simp
  next
    assume "\<exists>dir e. ptbr s ! ?outer = Ptr dir \<and> ?outer < length (ptbr s) \<and>
        ?inner < length dir \<and> pte_private (dir ! ?inner) \<noteq> RW_READ cfg \<and>
        ptbr s' = (ptbr s)[?outer := Ptr (dir[?inner := e])] \<and> processes s' = processes s"
    then obtain dir e where
      e: "ptbr s ! ?outer = Ptr dir" "?outer < length (ptbr s)" "?inner < length dir"
         "pte_private (dir ! ?inner) \<noteq> RW_READ cfg"
         "ptbr s' = (ptbr s)[?outer := Ptr (dir[?inner := e])]" "processes s' = processes s"
      by blast
    from e(1) have dir: "dir = (case ptbr s ! ?outer of Ptr d \<Rightarrow> d | _ \<Rightarrow> malloc_directory cfg)"
      by simp
    from e(1-4) have untagged: "\<not> ro_tagged cfg (ptbr s) vpn" "\<not> ro_entry cfg (ptbr s) vpn"
      by (simp_all add: ro_tagged_def ro_entry_def lookup_pte_def pte_at_def)
    with cur have out: "vpn \<notin> fst (fst g)" "vpn \<notin> snd (fst g)"
      by (auto simp: tracked_inv_def)
    have "tracked_inv cfg (ptbr s') (fst g)"
      unfolding e(5) using out by (intro tracked_inv_update [OF cur e(2) dir]) auto
    with rest e(6) show ?thesis
      by (simp add: ro_inv_def)
  qed
qed

lemma ro_inv_switch_process:
  assumes "ro_inv cfg s g" and "switch_process cfg p s = Inr s'"
  shows "ro_inv cfg s' (ro_step cfg (Switch_process p) s g)"
proof -
  let ?P = "\<lambda>p t. tracked_inv cfg (pagetable p) t"
  from assms(1) have cur: "tracked_inv cfg (ptbr s) (fst g)"
    and rest: "list_all2 ?P (processes s) (snd g)"
    by (simp_all add: ro_inv_def)
  from cur have cur': "?P (current s) (fst g)" by (simp add: ptbr_def)
  show ?thesis
  proof (cases "find_pid (processes s) p")
    case (Some k)
    from find_pid_Some_less [OF Some] have k: "k < length (processes s)" .
    from assms(2) Some have s': "s' = (memset_tlb s)\<lparr>current := processes s ! k,
        processes := take k (processes s) @ drop (Suc k) (processes s) @ [current s]\<rparr>"
      by (simp add: switch_process_def Let_def memset_tlb_def)
    from list_all2_nthD [OF rest k] have new: "?P (processes s ! k) (snd g ! k)" .
    have "list_all2 ?P (take k (processes s) @ drop (Suc k) (processes s) @ [current s])
            (take k (snd g) @ drop (Suc k) (snd g) @ [fst g])"
      using rest cur'
      by (intro list_all2_appendI list_all2_takeI list_all2_dropI) simp_all
    with new Some show ?thesis
      by (simp add: ro_inv_def ro_step_def s' ptbr_def)
  next
    case None
    let ?child = "child_table cfg (ptbr s) (malloc_outer_ptes cfg)"
    let ?parent = "(current s)\<lparr>pagetable := map (map_ptr (map cow_protect)) (ptbr s)\<rparr>"
    from cur have ext: "pagetable_extents cfg (ptbr s)" by (simp add: tracked_inv_def)
    from assms(2) None obtain r where
      "fork_dirs cfg 0 (ptbr s) (malloc_outer_ptes cfg) (mapcounts s) = Inr r"
      by (auto simp: switch_process_def Let_def memset_tlb_def ptbr_def split: sum.splits)
    from fork_dirs_no_wild [OF this] ext have "list_all (\<lambda>d. d \<noteq> Wild) (ptbr s)"
      by (simp add: pagetable_extents_def)
    with ext have pt: "wf_pagetable cfg (ptbr s)" by (simp add: wf_pagetable_iff)
    from switch_process_fork_closed [OF pt None] assms(2)
    have s': "s' = (memset_tlb s)
                 \<lparr>mapcounts := foldl count_mapping (mapcounts s) (all_ptes (ptbr s)),
                  current := \<lparr>pid = p, pagetable = ?child\<rparr>,
                  processes := processes s @ [?parent]\<rparr>"
      by (simp split: if_splits)
    have child: "tracked_inv cfg ?child (fst g)"
      by (rule tracked_inv_child [OF cur])
    have parent: "?P ?parent (fst g)"
      using tracked_inv_protect [OF cur] by simp
    have "list_all2 ?P (processes s @ [?parent]) (snd g @ [fst g])"
      using rest parent by (intro list_all2_appendI) simp_all
    with child None show ?thesis
      by (simp add: ro_inv_def ro_step_def s' ptbr_def)
  qed
qed

lemma step_simps:
  "step cfg (Alloc_page vpn rw) s = map_sum id snd (alloc_page cfg vpn rw s)"
  "step cfg (Free_page vpn) s = free_page cfg vpn s"
  "step cfg (Handle_page_fault vpn rw) s = map_sum id snd (handle_page_fault cfg vpn rw s)"
  "step cfg (Switch_process p) s = switch_process cfg p s"
  "step cfg (Insert_tlb vpn f) s = insert_tlb vpn f s"
  "step cfg (Lookup_tlb vpn) s = map_sum id (\<lambda>_. s) (lookup_tlb vpn s)"
  by (simp_all add: step_def)

lemma ro_step_simps:
  "ro_step cfg (Handle_page_fault vpn rw) s g = g"
  "ro_step cfg (Insert_tlb vpn f) s g = g"
  "ro_step cfg (Lookup_tlb vpn) s g = g"
  by (simp_all add: ro_step_def)

lemma map_sum_snd_Inr: "map_sum id snd r = Inr s' \<Longrightarrow> \<exists>a. r = Inr (a, s')"
  by (cases r) auto

lemma ro_inv_step:
  assumes "ro_inv cfg s g" and "step cfg x s = Inr s'"
  shows "ro_inv cfg s' (ro_step cfg x s g)"
proof (cases x)
  case (Alloc_page vpn rw)
  from assms(2) have "map_sum id snd (alloc_page cfg vpn rw s) = Inr s'"
    unfolding Alloc_page step_simps .
  from map_sum_snd_Inr [OF this] obtain r where "alloc_page cfg vpn rw s = Inr (r, s')" ..
  from ro_inv_alloc_page [OF assms(1) this] show ?thesis unfolding Alloc_page .
next
  case (Free_page vpn)
  from assms(2) have "free_page cfg vpn s = Inr s'"
    unfolding Free_page step_simps .
  from ro_inv_free_page [OF assms(1) this] show ?thesis unfolding Free_page .
next
  case (Handle_page_fault vpn rw)
  from assms(2) have "map_sum id snd (handle_page_fault cfg vpn rw s) = Inr s'"
    unfolding Handle_page_fault step_simps .
  from map_sum_snd_Inr [OF this] obtain b where "handle_page_fault cfg vpn rw s = Inr (b, s')" ..
  from ro_inv_handle_page_fault [OF assms(1) this] show ?thesis
    unfolding Handle_page_fault ro_step_simps .
next
  case (Switch_process p)
  from assms(2) have "switch_process cfg p s = Inr s'"
    unfolding Switch_process step_simps .
  from ro_inv_switch_process [OF assms(1) this] show ?thesis unfolding Switch_process .
next
  case (Insert_tlb vpn f)
  from assms(2) have "insert_tlb vpn f s = Inr s'"
    unfolding Insert_tlb step_simps .
  then have "ptbr s' = ptbr s \<and> processes s' = processes s"
    by (cases "length (tlb s) \<le> tlbSize s") (auto simp: insert_tlb_def Let_def ptbr_def)
  with assms(1) show ?thesis
    unfolding Insert_tlb ro_step_simps by (simp add: ro_inv_def)
next
  case (Lookup_tlb vpn)
  from assms(2) have "map_sum id (\<lambda>_. s) (lookup_tlb vpn s) = Inr s'"
    unfolding Lookup_tlb step_simps .
  then have "s' = s"
    by (cases "lookup_tlb vpn s") auto
  with assms(1) show ?thesis
    unfolding Lookup_tlb ro_step_simps by simp
qed

lemma ro_inv_run:
  "ro_inv cfg s g \<Longrightarrow> run_ops cfg xs s = Inr s' \<Longrightarrow> ro_inv cfg s' (ro_run cfg xs s g)"
proof (induction xs arbitrary: s g)
  case Nil
  then show ?case by simp
next
  case (Cons x xs)
  from Cons.prems(2) obtain s1 where s1: "step cfg x s = Inr s1" "run_ops cfg xs s1 = Inr s'"
    by (cases "step cfg x s") auto
  from Cons.IH [OF ro_inv_step [OF Cons.prems(1) s1(1)] s1(2)] s1(1) show ?case by simp
qed

lemma ro_inv_start:
  assumes "wf_state cfg s"
  shows "ro_inv cfg s (({}, {}), replicate (length (processes s)) ({}, {}))"
  using assms
  by (auto simp: ro_inv_def tracked_inv_def wf_state_def wf_pagetable_iff
      list_all2_conv_all_nth list_all_length)

text \<open>
  The handler changes nothing for a page whose entry is valid and tagged \<open>RW_READ\<close>,
  whatever the access is: a write to a non-writable entry is refused at line 245, and every
  other access reaches line 266.
\<close>

lemma ro_tagged_fault:
  assumes "ro_tagged cfg (ptbr s) vpn"
  shows "handle_page_fault cfg vpn rw s = Inr (False, s)"
proof -
  let ?outer = "unat vpn div NR_PTES_PER_PAGE cfg" and ?inner = "unat vpn mod NR_PTES_PER_PAGE cfg"
  from assms obtain e where e: "lookup_pte cfg (ptbr s) vpn = Some e"
    "valid e" "pte_private e = RW_READ cfg"
    by (auto simp: ro_tagged_def split: option.splits)
  from e(1) obtain dir where
    d: "\<not> length (ptbr s) \<le> ?outer" "ptbr s ! ?outer = Ptr dir"
       "\<not> length dir \<le> ?inner" "dir ! ?inner = e"
    by (auto simp: lookup_pte_def pte_at_def split: if_splits ptr.splits)
  with e(2,3) show ?thesis
    by (simp add: handle_page_fault_def Let_def)
qed

text \<open>
  Claim C1 as stated fails.  \<^verbatim>\<open>alloc_page\<close> does not look at the mapping a page has: after
  \<^verbatim>\<open>alloc_page(0, RW_READ)\<close>, which binds frame 0, the call \<^verbatim>\<open>alloc_page(0, RW_READ | RW_WRITE)\<close>
  succeeds, binds frame 1 and leaves the entry of page 0 writable (and still tagged
  \<open>RW_READ\<close>).
\<close>

theorem read_only_page_becomes_writable:
  "map_sum id
     (\<lambda>s. (lookup_pte small_config (ptbr s) 0,
            map_sum id (\<lambda>(r, s'). (r, lookup_pte small_config (ptbr s') 0))
              (alloc_page small_config 0 3 s)))
     (run_ops small_config [Alloc_page 0 1] (boot_state small_config)) =
     Inr (Some \<lparr>valid = True, writable = False, pfn = 0, pte_private = 1\<rparr>,
          Inr (1, Some \<lparr>valid = True, writable = True, pfn = 1, pte_private = 1\<rparr>))"
  by code_simp

text \<open>
  Claim C1, amended.  Take any run of the six operations from a well-formed state, and
  track with \<open>ro_run\<close>, for each process, the pages \<open>qc\<close> that were requested with \<open>RW_READ\<close>
  (by the process itself or by the process it was forked from) and not freed since, and
  among them the pages \<open>rc\<close> on which no later \<^verbatim>\<open>alloc_page\<close> call asked for read-write
  access.  In the state the run ends in:
  \<^item> every page of \<open>qc\<close> of the running process has a valid entry tagged \<open>RW_READ\<close>, and
    \<^verbatim>\<open>handle_page_fault\<close> for it, for a write access and for any other, returns false and
    leaves the state as it is;
  \<^item> the entry of every page of \<open>rc\<close> of the running process is not writable;
  \<^item> the same holds for the entries of the tracked pages of each process of the ready
    list.
\<close>

theorem read_only_pages_stay_read_only:
  assumes "wf_state cfg s0"
    and "run_ops cfg xs s0 = Inr s"
    and "ro_run cfg xs s0 (({}, {}), replicate (length (processes s0)) ({}, {})) =
           ((qc, rc), gr)"
  shows "(\<forall>vpn\<in>qc. ro_tagged cfg (ptbr s) vpn \<and>
            (\<forall>rw. handle_page_fault cfg vpn rw s = Inr (False, s))) \<and>
         (\<forall>vpn\<in>rc. ro_entry cfg (ptbr s) vpn) \<and>
         length gr = length (processes s) \<and>
         (\<forall>k<length gr.
            (\<forall>vpn\<in>fst (gr ! k). ro_tagged cfg (pagetable (processes s ! k)) vpn) \<and>
            (\<forall>vpn\<in>snd (gr ! k). ro_entry cfg (pagetable (processes s ! k)) vpn))"
proof -
  from ro_inv_run [OF ro_inv_start [OF assms(1)] assms(2)] assms(3)
  have inv: "ro_inv cfg s ((qc, rc), gr)" by simp
  then have cur: "tracked_inv cfg (ptbr s) (qc, rc)"
    and rest: "list_all2 (\<lambda>p t. tracked_inv cfg (pagetable p) t) (processes s) gr"
    by (simp_all add: ro_inv_def)
  from cur have a: "\<forall>vpn\<in>qc. ro_tagged cfg (ptbr s) vpn \<and>
            (\<forall>rw. handle_page_fault cfg vpn rw s = Inr (False, s))"
    using ro_tagged_fault by (simp add: tracked_inv_def)
  from cur have b: "\<forall>vpn\<in>rc. ro_entry cfg (ptbr s) vpn"
    by (simp add: tracked_inv_def)
  from rest have c: "length gr = length (processes s)"
    by (simp add: list_all2_lengthD)
  from rest have d: "\<forall>k<length gr.
            (\<forall>vpn\<in>fst (gr ! k). ro_tagged cfg (pagetable (processes s ! k)) vpn) \<and>
            (\<forall>vpn\<in>snd (gr ! k). ro_entry cfg (pagetable (processes s ! k)) vpn)"
    by (simp add: list_all2_conv_all_nth tracked_inv_def)
  from a b c d show ?thesis by blast
qed

text \<open>
  Claim C1 (amended) on the run to \<open>ro_fork_state\<close> followed by a write fault of the child
  on page 5: the pages 5 and 6 are tracked as requested read-only, page 5 as never
  requested for writing since, for the child and for the parent; the write faults of the
  child on the pages 5 and 6 fail.
\<close>

theorem read_only_pages_stay_read_only_witness:
  "wf_state wild_config (boot_state wild_config) \<and>
   run_ops wild_config
     [Alloc_page 5 1, Alloc_page 6 1, Alloc_page 6 3, Switch_process 1, Handle_page_fault 5 3]
     (boot_state wild_config) = Inr ro_fork_state \<and>
   ro_run wild_config
     [Alloc_page 5 1, Alloc_page 6 1, Alloc_page 6 3, Switch_process 1, Handle_page_fault 5 3]
     (boot_state wild_config)
     (({}, {}), replicate (length (processes (boot_state wild_config))) ({}, {})) =
     (({5, 6}, {5}), [({5, 6}, {5})]) \<and>
   ro_entry wild_config (ptbr ro_fork_state) 5 \<and>
   ro_tagged wild_config (ptbr ro_fork_state) 6 \<and>
   handle_page_fault wild_config 5 3 ro_fork_state = Inr (False, ro_fork_state) \<and>
   handle_page_fault wild_config 6 3 ro_fork_state = Inr (False, ro_fork_state) \<and>
   ro_entry wild_config (pagetable (processes ro_fork_state ! 0)) 5"
proof -
  let ?xs = "[Alloc_page 5 1, Alloc_page 6 1, Alloc_page 6 3, Switch_process 1,
              Handle_page_fault 5 3]"
  have wf: "wf_state wild_config (boot_state wild_config)"
    by code_simp
  have run: "run_ops wild_config ?xs (boot_state wild_config) = Inr ro_fork_state"
    by code_simp
  have tr: "ro_run wild_config ?xs (boot_state wild_config)
              (({}, {}), replicate (length (processes (boot_state wild_config))) ({}, {})) =
              (({5, 6}, {5}), [({5, 6}, {5})])"
    by code_simp
  note inst = read_only_pages_stay_read_only [OF wf run tr]
  from inst have a: "ro_entry wild_config (ptbr ro_fork_state) 5"
    by blast
  from inst have b: "ro_tagged wild_config (ptbr ro_fork_state) 6"
    by blast
  from inst have c: "handle_page_fault wild_config 5 3 ro_fork_state = Inr (False, ro_fork_state)"
    by blast
  from inst have d: "handle_page_fault wild_config 6 3 ro_fork_state = Inr (False, ro_fork_state)"
    by blast
  from inst have "ro_entry wild_config (pagetable (processes ro_fork_state ! 0)) 5"
    by simp
  with wf run tr a b c d show ?thesis by (intro conjI)
qed

text \<open>
  A defect of \<^verbatim>\<open>alloc_page\<close> that the statement above leaves out.  The permission bits are
  written (lines 144-149) before the search for a frame (lines 151-156).  At \<open>full_state\<close>
  page 0 is allocated read-only in frame 0 and no frame is free: the call
  \<^verbatim>\<open>alloc_page(0, RW_READ | RW_WRITE)\<close> returns \<open>- 1\<close>, it allocates nothing, and yet the entry
  of page 0, still bound to frame 0, is writable afterwards.  The page is populated with
  \<open>RW_READ\<close> only, and the description of \<^verbatim>\<open>alloc_page\<close> (lines 122-123) says that such a page
  should not be accessed for writes.
\<close>

lemma failed_alloc_page_sets_writable:
  "lookup_pte small_config (ptbr full_state) 0 =
     Some \<lparr>valid = True, writable = False, pfn = 0, pte_private = 1\<rparr> \<and>
   map_sum id (\<lambda>(r, s'). (r, lookup_pte small_config (ptbr s') 0, mapcounts s'))
     (alloc_page small_config 0 3 full_state) =
     Inr (- 1, Some \<lparr>valid = True, writable = True, pfn = 0, pte_private = 1\<rparr>, [1, 1, 1, 1])"
  by code_simp

end
